theory Spec2Isabelle
  imports Complex_Main
begin

section \<open>Storage: bounds-checked arrays and failing computations\<close>

text \<open>
  The scalar types \<open>T\<close> and \<open>RealType\<close> of the distance table are modelled by
  \<^typ>\<open>real\<close>: its operations copy and compare values, and the only
  arithmetic of their own is a change of sign.  The determinant data is
  polymorphic in \<open>ValueType\<close>: what \<open>updateRow\<close> and \<open>acceptMove\<close> compute is
  computed with an arithmetic that is a parameter, so that it may round,
  overflow and produce values that are not numbers, as IEEE arithmetic does;
  \<open>ratio\<close> and \<open>InvertWithLog\<close> are stated over the reals.  The C++ arrays are
  lists; an access outside the allocated buffer is undefined behaviour in the
  source and the error \<open>OutOfBounds\<close> in the model, so that it can never be
  mistaken for a no-op.
\<close>

datatype error = OutOfBounds

definition thenE :: "error + 'a \<Rightarrow> ('a \<Rightarrow> error + 'b) \<Rightarrow> error + 'b" where
  "thenE m f = (case m of Inl e \<Rightarrow> Inl e | Inr x \<Rightarrow> f x)"

definition rd :: "'a list \<Rightarrow> nat \<Rightarrow> error + 'a" where
  "rd xs i = (if i < length xs then Inr (xs ! i) else Inl OutOfBounds)"

definition wr :: "'a list \<Rightarrow> nat \<Rightarrow> 'a \<Rightarrow> error + 'a list" where
  "wr xs i v = (if i < length xs then Inr (xs[i := v]) else Inl OutOfBounds)"

text \<open>A counted \<open>for\<close> loop: the body runs on each index in turn and the first
  error leaves the loop.\<close>

fun foldE :: "('i \<Rightarrow> 's \<Rightarrow> error + 's) \<Rightarrow> 'i list \<Rightarrow> 's \<Rightarrow> error + 's" where
  "foldE f [] s = Inr s"
| "foldE f (x # xs) s = thenE (f x s) (foldE f xs)"

text \<open>\<open>simd::copy_n(src, n, dst)\<close> with both pointers given as a buffer and an
  offset into it: \<open>dst[k] = src[k]\<close> for \<open>k < n\<close>.\<close>

definition copy_n :: "'a list \<Rightarrow> nat \<Rightarrow> nat \<Rightarrow> 'a list \<Rightarrow> nat \<Rightarrow> error + 'a list" where
  "copy_n src soff n dst doff =
     foldE (\<lambda>k d. thenE (rd src (soff + k)) (\<lambda>v. wr d (doff + k) v)) [0..<n] dst"

text \<open>\<open>std::vector::resize(n)\<close>: the first \<open>n\<close> elements stay, new ones are
  value-initialised.\<close>

definition vec_resize :: "nat \<Rightarrow> 'a::zero list \<Rightarrow> 'a list" where
  "vec_resize n xs = take n xs @ replicate (n - length xs) 0"

text \<open>Modelled from the spec: \<open>getAlignedSize<T>(n)\<close>, the count \<open>n\<close> rounded up
  to a multiple of the vector width \<open>w\<close> of the scalar type (``padded to a
  vector-width alignment for the chosen scalar type'').\<close>

definition getAlignedSize :: "nat \<Rightarrow> nat \<Rightarrow> nat" where
  "getAlignedSize w n = ((n + w - 1) div w) * w"

text \<open>Modelled from the spec: \<open>Matrix<T>\<close>, a row-major buffer of \<open>D1\<close> rows of
  \<open>D2\<close> elements; \<open>m[i]\<close> is the pointer \<open>X + i * D2\<close> and \<open>m[i][k]\<close> the element
  \<open>X[i * D2 + k]\<close>.\<close>

record 'a Matrix =
  D1 :: nat
  D2 :: nat
  X :: "'a list"

text \<open>Modelled from the spec: \<open>Matrix<T>::resize(n, m)\<close>, ``(re)allocates all
  storage'': a fresh buffer of \<open>n * m\<close> elements, zero here (null vectors for
  \<open>Matrix<PosType>\<close>).\<close>

definition Matrix_resize :: "nat \<Rightarrow> nat \<Rightarrow> 'a::zero Matrix" where
  "Matrix_resize n m = \<lparr>D1 = n, D2 = m, X = replicate (n * m) 0\<rparr>"

definition Matrix_resize_pos :: "nat \<Rightarrow> nat \<Rightarrow> nat \<Rightarrow> real list Matrix" where
  "Matrix_resize_pos d n m = \<lparr>D1 = n, D2 = m, X = replicate (n * m) (replicate d 0)\<rparr>"

text \<open>Modelled from the spec: \<open>VectorSoAContainer<T,D>\<close>, ``one block (contiguous
  \<open>D\<close> sub-arrays)'': \<open>data(d)\<close> is the pointer \<open>myData + d * nGhosts\<close> and element
  \<open>i\<close> is the vector of the \<open>myData[d * nGhosts + i]\<close>.  \<open>Temp_dr\<close> owns its buffer;
  a row of \<open>Displacements\<close> is attached to a block of \<open>memoryPool\<close>, given by its
  offset.\<close>

record VectorSoAContainer =
  nLocal :: nat
  nGhosts :: nat
  myData :: "real list"

record SoARef =
  ref_nLocal :: nat
  ref_nGhosts :: nat
  ref_offset :: nat

text \<open>Modelled from the spec: \<open>attachReference(n, n_padded, ptr)\<close> makes a row of
  \<open>n\<close> vectors with sub-arrays of \<open>n_padded\<close> elements at \<open>ptr\<close> (``all rows carved
  from one contiguous pool''), and \<open>VectorSoAContainer::resize(n)\<close> allocates
  \<open>D\<close> sub-arrays of the padded length.\<close>

definition attachReference :: "nat \<Rightarrow> nat \<Rightarrow> nat \<Rightarrow> SoARef" where
  "attachReference n n_padded off = \<lparr>ref_nLocal = n, ref_nGhosts = n_padded, ref_offset = off\<rparr>"

definition SoA_resize :: "nat \<Rightarrow> nat \<Rightarrow> nat \<Rightarrow> VectorSoAContainer" where
  "SoA_resize w d n =
     \<lparr>nLocal = n, nGhosts = getAlignedSize w n, myData = replicate (getAlignedSize w n * d) 0\<rparr>"

section \<open>DistanceTableBA\<close>

text \<open>
  The template parameter \<open>D\<close> and the vector width of \<open>T\<close> are fields \<open>D\<close> and
  \<open>Align\<close> of the table; \<open>Rmax\<close>, \<open>N\<close>, \<open>Distances\<close>, \<open>Displacements\<close>,
  \<open>memoryPool\<close>, \<open>Temp_r\<close>, \<open>Temp_dr\<close>, \<open>M\<close>, \<open>r_m2\<close>, \<open>dr_m2\<close> and \<open>J2\<close> are the
  members inherited from \<open>DistanceTableData\<close>.  The \<open>int\<close> counts are natural
  numbers; the product in the test of \<open>resize\<close> wraps at 32 bits.
\<close>

record DistanceTableBA =
  D :: nat
  Align :: nat
  Rmax :: real
  Nsources :: nat
  Ntargets :: nat
  BlockSize :: nat
  N_SourceIndex :: nat
  N_VisitorIndex :: nat
  Distances :: "real Matrix"
  memoryPool :: "real list"
  Displacements :: "SoARef list"
  Temp_r :: "real list"
  Temp_dr :: VectorSoAContainer
  M :: "nat list"
  r_m2 :: "real Matrix"
  dr_m2 :: "real list Matrix"
  J2 :: "nat Matrix"

text \<open>The table before the constructor's call of \<open>resize\<close>: every container
  empty.  The constructor does not initialise \<open>BlockSize\<close>; its value \<open>bs\<close> is
  a parameter.\<close>

definition unallocated :: "nat \<Rightarrow> nat \<Rightarrow> real \<Rightarrow> nat \<Rightarrow> DistanceTableBA" where
  "unallocated d w rmax bs =
     \<lparr>D = d, Align = w, Rmax = rmax, Nsources = 0, Ntargets = 0, BlockSize = bs,
      N_SourceIndex = 0, N_VisitorIndex = 0,
      Distances = \<lparr>D1 = 0, D2 = 0, X = []\<rparr>, memoryPool = [], Displacements = [],
      Temp_r = [], Temp_dr = \<lparr>nLocal = 0, nGhosts = 0, myData = []\<rparr>, M = [],
      r_m2 = \<lparr>D1 = 0, D2 = 0, X = []\<rparr>, dr_m2 = \<lparr>D1 = 0, D2 = 0, X = []\<rparr>,
      J2 = \<lparr>D1 = 0, D2 = 0, X = []\<rparr>\<rparr>"

definition resize :: "nat \<Rightarrow> nat \<Rightarrow> DistanceTableBA \<Rightarrow> DistanceTableBA" where
  "resize ns nt s =
     (let s1 = s\<lparr>Nsources := ns, N_SourceIndex := ns, Ntargets := nt, N_VisitorIndex := nt\<rparr>
      in if (ns * nt) mod 2 ^ 32 = 0 then s1
         else
           let Ntargets_padded = getAlignedSize (Align s) nt;
               Nsources_padded = getAlignedSize (Align s) ns;
               bs = Nsources_padded * D s
           in s1\<lparr>Distances := Matrix_resize nt Nsources_padded,
                 BlockSize := bs,
                 memoryPool := vec_resize (nt * bs) (memoryPool s),
                 Displacements := map (\<lambda>i. attachReference ns Nsources_padded (i * bs)) [0..<nt],
                 Temp_r := vec_resize ns (Temp_r s),
                 Temp_dr := SoA_resize (Align s) (D s) ns,
                 M := vec_resize ns (M s),
                 r_m2 := Matrix_resize ns Ntargets_padded,
                 dr_m2 := Matrix_resize_pos (D s) ns Ntargets_padded,
                 J2 := Matrix_resize ns Ntargets_padded\<rparr>)"

text \<open>Modelled from the spec: \<open>DTD_BConds::computeDistances(pos, RSoA, temp_r,
  temp_dr, first, last)\<close>.  The boundary policy and the source positions are the
  parameter \<open>bc\<close>: \<open>bc pos i\<close> is the minimum-image distance and displacement
  between \<open>pos\<close> and source \<open>i\<close>.  The kernel stores them in entries
  \<open>first .. last - 1\<close> of the distance row and of each of the \<open>D\<close> sub-arrays of
  the displacement row.\<close>

definition computeDistances ::
  "('p \<Rightarrow> nat \<Rightarrow> real \<times> (nat \<Rightarrow> real)) \<Rightarrow> nat \<Rightarrow> 'p \<Rightarrow> nat \<Rightarrow> nat \<Rightarrow> nat \<Rightarrow> nat \<Rightarrow> nat \<Rightarrow>
     real list \<times> real list \<Rightarrow> error + (real list \<times> real list)" where
  "computeDistances bc d pos r_off dr_off dr_stride first lst =
     foldE (\<lambda>iat (r, dr).
        thenE (wr r (r_off + iat) (fst (bc pos iat))) (\<lambda>r'.
        thenE (foldE (\<lambda>idim b. wr b (dr_off + idim * dr_stride + iat) (snd (bc pos iat) idim))
                 [0..<d] dr) (\<lambda>dr'.
        Inr (r', dr')))) [first..<lst]"

text \<open>\<open>evaluate(P)\<close>: the full table.  \<open>P\<close> gives the position \<open>P.R[iat]\<close>.\<close>

definition evaluate_row ::
  "('p \<Rightarrow> nat \<Rightarrow> real \<times> (nat \<Rightarrow> real)) \<Rightarrow> (nat \<Rightarrow> 'p) \<Rightarrow> nat \<Rightarrow> DistanceTableBA \<Rightarrow> error + DistanceTableBA" where
  "evaluate_row bc P iat s =
     thenE (rd (Displacements s) iat) (\<lambda>ref.
     thenE (computeDistances bc (D s) (P iat) (iat * D2 (Distances s))
              (ref_offset ref) (ref_nGhosts ref) 0 (Nsources s)
              (X (Distances s), memoryPool s)) (\<lambda>(r, dr).
     Inr (s\<lparr>Distances := (Distances s)\<lparr>X := r\<rparr>, memoryPool := dr\<rparr>)))"

definition evaluate ::
  "('p \<Rightarrow> nat \<Rightarrow> real \<times> (nat \<Rightarrow> real)) \<Rightarrow> (nat \<Rightarrow> 'p) \<Rightarrow> DistanceTableBA \<Rightarrow> error + DistanceTableBA" where
  "evaluate bc P s = foldE (evaluate_row bc P) [0..<Ntargets s] s"

text \<open>\<open>move(P, rnew)\<close>: the trial row, into \<open>Temp_r\<close> and \<open>Temp_dr\<close>.\<close>

definition move ::
  "('p \<Rightarrow> nat \<Rightarrow> real \<times> (nat \<Rightarrow> real)) \<Rightarrow> 'p \<Rightarrow> DistanceTableBA \<Rightarrow> error + DistanceTableBA" where
  "move bc rnew s =
     thenE (computeDistances bc (D s) rnew 0 0 (nGhosts (Temp_dr s)) 0 (Nsources s)
              (Temp_r s, myData (Temp_dr s))) (\<lambda>(r, dr).
     Inr (s\<lparr>Temp_r := r, Temp_dr := (Temp_dr s)\<lparr>myData := dr\<rparr>\<rparr>))"

text \<open>\<open>update(iat)\<close>: the trial row copied into row \<open>iat\<close>.\<close>

definition update :: "nat \<Rightarrow> DistanceTableBA \<Rightarrow> error + DistanceTableBA" where
  "update iat s =
     thenE (copy_n (Temp_r s) 0 (Nsources s) (X (Distances s)) (iat * D2 (Distances s))) (\<lambda>r.
     thenE (foldE (\<lambda>idim pool.
              thenE (rd (Displacements s) iat) (\<lambda>ref.
              copy_n (myData (Temp_dr s)) (idim * nGhosts (Temp_dr s)) (Nsources s)
                pool (ref_offset ref + idim * ref_nGhosts ref)))
            [0..<D s] (memoryPool s)) (\<lambda>pool.
     Inr (s\<lparr>Distances := (Distances s)\<lparr>X := r\<rparr>, memoryPool := pool\<rparr>)))"

text \<open>\<open>donePbyP()\<close>: the compact lists.  \<open>eps\<close> is
  \<open>std::numeric_limits<T>::epsilon()\<close>.  The inner loop carries \<open>nn\<close> and the
  three buffers \<open>r_m2\<close>, \<open>dr_m2\<close>, \<open>J2\<close>.\<close>

definition displacement_at :: "nat \<Rightarrow> real list \<Rightarrow> SoARef \<Rightarrow> nat \<Rightarrow> error + real list" where
  "displacement_at d pool ref i =
     foldE (\<lambda>idim v. thenE (rd pool (ref_offset ref + idim * ref_nGhosts ref + i))
                        (\<lambda>x. Inr (v @ [x]))) [0..<d] []"

definition compact_pair ::
  "DistanceTableBA \<Rightarrow> nat \<Rightarrow> nat \<Rightarrow> nat \<times> real list \<times> real list list \<times> nat list \<Rightarrow>
     error + (nat \<times> real list \<times> real list list \<times> nat list)" where
  "compact_pair s iat jat = (\<lambda>(nn, rs, ds, js).
     thenE (rd (X (Distances s)) (jat * D2 (Distances s) + iat)) (\<lambda>rij.
     if rij < Rmax s then
       thenE (wr rs (iat * D2 (r_m2 s) + nn) rij) (\<lambda>rs'.
       thenE (rd (Displacements s) jat) (\<lambda>ref.
       thenE (displacement_at (D s) (memoryPool s) ref iat) (\<lambda>dv.
       thenE (wr ds (iat * D2 (dr_m2 s) + nn) (map (\<lambda>x. (- 1) * x) dv)) (\<lambda>ds'.
       thenE (wr js (iat * D2 (J2 s) + nn) jat) (\<lambda>js'.
       Inr (nn + 1, rs', ds', js'))))))
     else Inr (nn, rs, ds, js)))"

definition compact_source ::
  "DistanceTableBA \<Rightarrow> nat \<Rightarrow> nat list \<times> real list \<times> real list list \<times> nat list \<Rightarrow>
     error + (nat list \<times> real list \<times> real list list \<times> nat list)" where
  "compact_source s iat = (\<lambda>(m, rs, ds, js).
     thenE (foldE (compact_pair s iat) [0..<Ntargets s] (0, rs, ds, js)) (\<lambda>(nn, rs', ds', js').
     thenE (wr m iat nn) (\<lambda>m'.
     Inr (m', rs', ds', js'))))"

definition donePbyP :: "real \<Rightarrow> DistanceTableBA \<Rightarrow> error + DistanceTableBA" where
  "donePbyP eps s =
     (if Rmax s < eps then Inr s
      else
        thenE (foldE (compact_source s) [0..<Nsources s]
                 (M s, X (r_m2 s), X (dr_m2 s), X (J2 s))) (\<lambda>(m, rs, ds, js).
        Inr (s\<lparr>M := m, r_m2 := (r_m2 s)\<lparr>X := rs\<rparr>, dr_m2 := (dr_m2 s)\<lparr>X := ds\<rparr>,
               J2 := (J2 s)\<lparr>X := js\<rparr>\<rparr>)))"

section \<open>Determinant\<close>

text \<open>
  Kokkos views are lists (rank one) and lists of rows (rank two, \<open>LayoutRight\<close>);
  host mirrors and deep copies are the identity.  The members \<open>LogValue\<close>,
  \<open>curRatio\<close> and \<open>FirstIndex\<close> exist twice in the source, as views of
  \<open>DiracDeterminantKokkos\<close> and as scalars of \<open>DiracDeterminant\<close>; the views carry
  the suffix \<open>_view\<close> here.  The source does not compile as it stands: where a
  name is undeclared (\<open>psiV\<close> for \<open>ddk.psiV\<close> in \<open>ratio\<close>, \<open>view\<close> for
  \<open>ddk.psiM\<close> and \<open>i\<close> for the index \<open>ii\<close> in \<open>InvertWithLog\<close>) the model
  takes the object the statement evidently refers to, and the call of
  \<open>updateRow\<close> in \<open>acceptMove\<close> passes its arguments in the declared order.
\<close>

text \<open>The type parameter \<open>'v\<close> is \<open>ValueType\<close>.\<close>

record 'v DiracDeterminantKokkos =
  LogValue_view :: 'v
  curRatio_view :: 'v
  FirstIndex_view :: int
  psiMinv :: "'v list list"
  psiV :: "'v list"
  tempRowVec :: "'v list"
  rcopy :: "'v list"
  psiM :: "'v list list"
  psiMsave :: "'v list list"

text \<open>\<open>myRandom\<close> is the sequence of numbers the generator is still to return.\<close>

record 'v DiracDeterminant =
  ddk :: "'v DiracDeterminantKokkos"
  LogValue :: 'v
  curRatio :: 'v
  FirstIndex :: int
  myRandom :: "nat \<Rightarrow> 'v"

text \<open>The arithmetic of \<open>ValueType\<close>: the constants \<open>czero\<close> and \<open>cone\<close> of
  \<open>updateRow\<close> and the operations \<open>+\<close>, \<open>-\<close>, \<open>*\<close>, \<open>/\<close> and unary minus.  For
  IEEE doubles they round, and \<open>cone / c_ratio_in\<close> is infinite for a ratio that
  is zero or too small; \<open>real_arith\<close> is the exact arithmetic of the reals.\<close>

record 'v arith =
  v_zero :: 'v
  v_one :: 'v
  v_add :: "'v \<Rightarrow> 'v \<Rightarrow> 'v"
  v_sub :: "'v \<Rightarrow> 'v \<Rightarrow> 'v"
  v_mul :: "'v \<Rightarrow> 'v \<Rightarrow> 'v"
  v_div :: "'v \<Rightarrow> 'v \<Rightarrow> 'v"
  v_neg :: "'v \<Rightarrow> 'v"

definition real_arith :: "real arith" where
  "real_arith = \<lparr>v_zero = 0, v_one = 1, v_add = (+), v_sub = (-), v_mul = (*), v_div = (/),
                  v_neg = uminus\<rparr>"

text \<open>An index of type \<open>int\<close> into a view.\<close>

definition rd_int :: "'a list \<Rightarrow> int \<Rightarrow> error + 'a" where
  "rd_int xs i = (if 0 \<le> i then rd xs (nat i) else Inl OutOfBounds)"

definition wr_int :: "'a list \<Rightarrow> int \<Rightarrow> 'a \<Rightarrow> error + 'a list" where
  "wr_int xs i v = (if 0 \<le> i then wr xs (nat i) v else Inl OutOfBounds)"

definition dot :: "real list \<Rightarrow> real list \<Rightarrow> nat \<Rightarrow> real" where
  "dot xs ys n = (\<Sum>k = 0..<n. xs ! k * ys ! k)"

text \<open>The same inner product accumulated in index order with a given
  arithmetic.\<close>

definition v_dot :: "'v arith \<Rightarrow> 'v list \<Rightarrow> 'v list \<Rightarrow> nat \<Rightarrow> 'v" where
  "v_dot ar xs ys n =
     foldl (\<lambda>acc k. v_add ar acc (v_mul ar (xs ! k) (ys ! k))) (v_zero ar) [0..<n]"

text \<open>
  The kernels of \<open>linalgHelper\<close> (\<open>Numerics/LinAlgKokkos.h\<close>) that \<open>ratio\<close>,
  \<open>updateRow\<close> and \<open>acceptMove\<close> call are not part of the sources at hand.  The
  spec writes \<open>Inverse[rowIndex][k]\<close> for entry \<open>k\<close> of what it calls
  \<open>Inverse_column(rowIndex)\<close>: the stored array \<open>psiMinv\<close> holds the inverse
  transposed, and row \<open>r\<close> of the array is column \<open>r\<close> of the inverse.  Each kernel
  fails with \<open>OutOfBounds\<close> when an extent is too small for the entries it
  touches.
\<close>

text \<open>Modelled from the spec: \<open>updateRatio\<close>,
  ``\<open>TrialRatio = \<Sum>_k newRow[k] \<cdot> Inverse[rowIndex][k]\<close>''; the source comment gives
  the same inner product of \<open>psiV\<close> and \<open>psiMinv[iel - FirstIndex]\<close>.\<close>

definition updateRatio :: "real list \<Rightarrow> real list list \<Rightarrow> int \<Rightarrow> error + real" where
  "updateRatio v pinv r =
     thenE (rd_int pinv r) (\<lambda>row.
       if length v \<le> length row then Inr (dot v row (length v)) else Inl OutOfBounds)"

text \<open>Modelled from the spec: \<open>gemvTrans\<close>, ``\<open>u = c \<cdot> (TrialVector \<cdot> Inverse)\<close>'':
  entry \<open>j\<close> of the product is the inner product of the trial vector and column
  \<open>j\<close> of the inverse, that is row \<open>j\<close> of the array; in general
  \<open>y \<leftarrow> alpha \<cdot> (x \<cdot> A) + beta \<cdot> y\<close>.\<close>

definition gemvTrans ::
  "'v arith \<Rightarrow> 'v list list \<Rightarrow> 'v list \<Rightarrow> 'v list \<Rightarrow> 'v \<Rightarrow> 'v \<Rightarrow> error + 'v list" where
  "gemvTrans ar a x y alpha beta =
     (if length y \<le> length a \<and> list_all (\<lambda>row. length x \<le> length row) (take (length y) a)
      then Inr (map (\<lambda>j. v_add ar (v_mul ar alpha (v_dot ar (a ! j) x (length x)))
                            (v_mul ar beta (y ! j))) [0..<length y])
      else Inl OutOfBounds)"

text \<open>Modelled from the spec: \<open>copyChangedRow\<close>, ``\<open>Inverse_column(rowIndex)\<close>'':
  row \<open>rowIndex\<close> of the array, copied into \<open>rcopy\<close>.\<close>

definition copyChangedRow :: "int \<Rightarrow> 'v list list \<Rightarrow> 'v list \<Rightarrow> error + 'v list" where
  "copyChangedRow r a rc =
     thenE (rd_int a r) (\<lambda>row.
       if length rc \<le> length row then Inr (take (length rc) row) else Inl OutOfBounds)"

text \<open>Modelled from the spec: \<open>ger\<close>,
  ``\<open>Inverse \<leftarrow> Inverse - outer(Inverse_column(rowIndex), u)\<close>'' with \<open>alpha = -1\<close>:
  entry \<open>(i, j)\<close> of the inverse, stored at \<open>[j][i]\<close>, changes by
  \<open>alpha \<cdot> x[i] \<cdot> y[j]\<close>.\<close>

definition ger ::
  "'v arith \<Rightarrow> 'v list list \<Rightarrow> 'v list \<Rightarrow> 'v list \<Rightarrow> 'v \<Rightarrow> error + 'v list list" where
  "ger ar a x y alpha =
     (if length a \<le> length y \<and> list_all (\<lambda>row. length row \<le> length x) a
      then Inr (map (\<lambda>j. map (\<lambda>i. v_add ar (a ! j ! i) (v_mul ar (v_mul ar alpha (x ! i)) (y ! j)))
                             [0..<length (a ! j)])
                  [0..<length a])
      else Inl OutOfBounds)"

text \<open>Modelled from the spec: \<open>copyBack\<close>, ``replace \<open>Matrix\<close>'s row \<open>rowIndex\<close> with
  \<open>TrialVector\<close>''.\<close>

definition copyBack :: "'v list list \<Rightarrow> 'v list \<Rightarrow> int \<Rightarrow> error + 'v list list" where
  "copyBack m v r =
     thenE (rd_int m r) (\<lambda>row.
       if length v \<le> length row then Inr (m[nat r := v @ drop (length v) row])
       else Inl OutOfBounds)"

text \<open>The LU kernels of \<open>linalgHelper\<close> are parameters: \<open>getrf\<close> returns the
  factored matrix (it overwrites its argument) and the pivot indices that
  \<open>getPivot\<close> hands out, \<open>getri\<close> the inverse computed from them.\<close>

record LinAlgHelper =
  getrf :: "real list list \<Rightarrow> real list list \<times> int list"
  getri :: "real list list \<Rightarrow> int list \<Rightarrow> real list list"

text \<open>\<open>Kokkos::parallel_reduce\<close>: each thread starts from the identity of the
  reducer, runs the functor on its own indices with its own accumulator, and
  the accumulators are joined.  \<open>chunks\<close> lists the indices of each thread.\<close>

definition parallel_reduce ::
  "(nat \<Rightarrow> 'a \<Rightarrow> error + 'a) \<Rightarrow> 'a \<Rightarrow> ('a \<Rightarrow> 'a \<Rightarrow> 'a) \<Rightarrow> nat list list \<Rightarrow> error + 'a" where
  "parallel_reduce f ident join chunks =
     foldE (\<lambda>chunk acc. thenE (foldE f chunk ident) (\<lambda>part. Inr (join acc part))) chunks ident"

definition rd2 :: "'a list list \<Rightarrow> nat \<Rightarrow> nat \<Rightarrow> error + 'a" where
  "rd2 a i j = thenE (rd a i) (\<lambda>row. rd row j)"

text \<open>\<open>std::log(std::abs(x))\<close> and the sum of such values: \<open>None\<close> stands for a
  result that is not a real number (the logarithm of zero).\<close>

definition log_abs :: "real \<Rightarrow> real option" where
  "log_abs x = (if x = 0 then None else Some (ln \<bar>x\<bar>))"

definition plus_opt :: "real option \<Rightarrow> real option \<Rightarrow> real option" where
  "plus_opt a b = (case (a, b) of (Some x, Some y) \<Rightarrow> Some (x + y) | _ \<Rightarrow> None)"

text \<open>The functor of the first reduction assigns to \<open>cur_sign\<close> before it
  multiplies; the second reduction adds into \<open>logdet\<close>.\<close>

definition sign_functor :: "real list list \<Rightarrow> int list \<Rightarrow> nat \<Rightarrow> int \<Rightarrow> error + int" where
  "sign_functor m locPiv i cur_sign =
     thenE (rd locPiv i) (\<lambda>p.
     thenE (rd2 m i i) (\<lambda>x.
       let cur_sign1 = (if p = int i + 1 then 1 else - 1)
       in Inr (cur_sign1 * (if x > 0 then 1 else - 1))))"

definition log_functor :: "real list list \<Rightarrow> nat \<Rightarrow> real option \<Rightarrow> error + real option" where
  "log_functor m i v = thenE (rd2 m i i) (\<lambda>x. Inr (plus_opt v (log_abs x)))"

text \<open>\<open>InvertWithLog\<close> returns \<open>locLogDet\<close>, the phase and the determinant data.
  The second reduction stores its sum in \<open>logdet\<close>, a name the function does not
  declare and does not read again; \<open>locLogDet\<close> is initialised and returned.\<close>

definition InvertWithLog ::
  "LinAlgHelper \<Rightarrow> nat list list \<Rightarrow> real DiracDeterminantKokkos \<Rightarrow>
     error + (real \<times> real \<times> real DiracDeterminantKokkos)" where
  "InvertWithLog lah chunks d =
     (let locLogDet = 0;
          (lu, locPiv) = getrf lah (psiM d)
      in thenE (parallel_reduce (sign_functor lu locPiv) 1 (*) chunks) (\<lambda>sign_det.
         thenE (parallel_reduce (log_functor lu) (Some 0) plus_opt chunks) (\<lambda>logdet.
           let pinv = getri lah lu locPiv;
               phase = (if sign_det > 0 then 0 else pi)
           in Inr (locLogDet, phase, d\<lparr>psiM := pinv\<rparr>))))"

text \<open>\<open>updateRow\<close>, with the arithmetic \<open>ar\<close> of \<open>ValueType\<close>.  The function tests
  nothing: whatever \<open>cone / c_ratio_in\<close> is, it goes on.\<close>

definition updateRow ::
  "'v arith \<Rightarrow> 'v DiracDeterminantKokkos \<Rightarrow> int \<Rightarrow> 'v \<Rightarrow> error + 'v DiracDeterminantKokkos" where
  "updateRow ar d rowchanged c_ratio_in =
     (let cone = v_one ar;
          czero = v_zero ar;
          c_ratio = v_div ar cone c_ratio_in
      in thenE (gemvTrans ar (psiMinv d) (psiV d) (tempRowVec d) c_ratio czero) (\<lambda>t.
         thenE (wr_int t rowchanged (v_sub ar cone c_ratio)) (\<lambda>t'.
         thenE (copyChangedRow rowchanged (psiMinv d) (rcopy d)) (\<lambda>rc.
         thenE (ger ar (psiMinv d) rc t' (v_neg ar cone)) (\<lambda>pinv.
         Inr (d\<lparr>tempRowVec := t', rcopy := rc, psiMinv := pinv\<rparr>))))))"

text \<open>\<open>ratio(P, iel)\<close>: the new row is drawn from \<open>myRandom\<close>; the result is the
  ratio and the new state.  The inner product is the exact one of the reals.\<close>

definition ratio ::
  "real DiracDeterminant \<Rightarrow> int \<Rightarrow> error + (real \<times> real DiracDeterminant)" where
  "ratio s iel =
     (let nels = length (psiV (ddk s));
          shift = 1 / 2;
          psiVMirror = map (\<lambda>j. myRandom s j - shift) [0..<nels];
          s1 = s\<lparr>ddk := (ddk s)\<lparr>psiV := psiVMirror\<rparr>, myRandom := (\<lambda>j. myRandom s (j + nels))\<rparr>
      in thenE (updateRatio (psiV (ddk s1)) (psiMinv (ddk s1)) (iel - FirstIndex s)) (\<lambda>r.
           Inr (r, s1\<lparr>curRatio := r\<rparr>)))"

definition acceptMove ::
  "'v arith \<Rightarrow> 'v DiracDeterminant \<Rightarrow> int \<Rightarrow> error + 'v DiracDeterminant" where
  "acceptMove ar s iel =
     thenE (updateRow ar (ddk s) (iel - FirstIndex s) (curRatio s)) (\<lambda>d.
     thenE (copyBack (psiMsave d) (psiV d) (iel - FirstIndex s)) (\<lambda>m.
     Inr (s\<lparr>ddk := d\<lparr>psiMsave := m\<rparr>\<rparr>)))"

section \<open>Write lists, allocated tables and compact lists\<close>

text \<open>A loop whose iterations store values that do not depend on the target
  buffer is a list of writes \<open>(index, value)\<close>; \<open>writes_pure\<close> is its effect when
  every index is inside the buffer.\<close>

definition apply_writes :: "(nat \<times> 'a) list \<Rightarrow> 'a list \<Rightarrow> error + 'a list" where
  "apply_writes W b = foldE (\<lambda>(i, v) b. wr b i v) W b"

definition writes_pure :: "(nat \<times> 'a) list \<Rightarrow> 'a list \<Rightarrow> 'a list" where
  "writes_pure W b = fold (\<lambda>(i, v) b. b[i := v]) W b"

text \<open>The writes of \<open>update iat\<close> into \<open>Distances\<close> and into \<open>memoryPool\<close>, and
  the condition under which its reads are inside \<open>Displacements\<close> and \<open>Temp_dr\<close>.\<close>

definition row_writes :: "DistanceTableBA \<Rightarrow> nat \<Rightarrow> (nat \<times> real) list" where
  "row_writes s iat = map (\<lambda>k. (iat * D2 (Distances s) + k, Temp_r s ! k)) [0..<Nsources s]"

definition pool_writes :: "DistanceTableBA \<Rightarrow> nat \<Rightarrow> (nat \<times> real) list" where
  "pool_writes s iat = concat (map (\<lambda>idim.
      map (\<lambda>k. (ref_offset (Displacements s ! iat) + idim * ref_nGhosts (Displacements s ! iat) + k,
                 myData (Temp_dr s) ! (idim * nGhosts (Temp_dr s) + k))) [0..<Nsources s]) [0..<D s])"

definition update_reads_ok :: "DistanceTableBA \<Rightarrow> nat \<Rightarrow> bool" where
  "update_reads_ok s iat \<longleftrightarrow>
     (\<forall>idim<D s. iat < length (Displacements s) \<and>
        (\<forall>k<Nsources s. idim * nGhosts (Temp_dr s) + k < length (myData (Temp_dr s))))"

text \<open>The writes of \<open>computeDistances\<close> into the distance row and into the
  displacement row, for the sources \<open>js\<close>; \<open>in_range\<close> says that a write list stays
  inside a buffer.\<close>

definition cd_r_writes ::
  "('p \<Rightarrow> nat \<Rightarrow> real \<times> (nat \<Rightarrow> real)) \<Rightarrow> 'p \<Rightarrow> nat \<Rightarrow> nat list \<Rightarrow> (nat \<times> real) list" where
  "cd_r_writes bc pos r_off js = map (\<lambda>iat. (r_off + iat, fst (bc pos iat))) js"

definition cd_dr_writes ::
  "('p \<Rightarrow> nat \<Rightarrow> real \<times> (nat \<Rightarrow> real)) \<Rightarrow> nat \<Rightarrow> 'p \<Rightarrow> nat \<Rightarrow> nat \<Rightarrow> nat list \<Rightarrow> (nat \<times> real) list" where
  "cd_dr_writes bc d pos dr_off stride js =
     concat (map (\<lambda>iat. map (\<lambda>idim. (dr_off + idim * stride + iat, snd (bc pos iat) idim)) [0..<d]) js)"

definition in_range :: "(nat \<times> 'a) list \<Rightarrow> 'b list \<Rightarrow> bool" where
  "in_range W b \<longleftrightarrow> list_all (\<lambda>p. fst p < length b) W"

text \<open>The shape that \<open>resize\<close> gives a table with two non-zero counts: every
  buffer allocated, the source dimension padded, row \<open>i\<close> of \<open>Displacements\<close>
  attached to block \<open>i\<close> of \<open>memoryPool\<close>.\<close>

definition wf_table :: "DistanceTableBA \<Rightarrow> bool" where
  "wf_table s \<longleftrightarrow>
     D1 (Distances s) = Ntargets s \<and> Nsources s \<le> D2 (Distances s) \<and>
     length (X (Distances s)) = Ntargets s * D2 (Distances s) \<and>
     BlockSize s = D2 (Distances s) * D s \<and>
     length (memoryPool s) = Ntargets s * BlockSize s \<and>
     Displacements s =
       map (\<lambda>i. attachReference (Nsources s) (D2 (Distances s)) (i * BlockSize s)) [0..<Ntargets s] \<and>
     length (Temp_r s) = Nsources s \<and>
     nLocal (Temp_dr s) = Nsources s \<and> Nsources s \<le> nGhosts (Temp_dr s) \<and>
     length (myData (Temp_dr s)) = nGhosts (Temp_dr s) * D s \<and>
     length (M s) = Nsources s \<and>
     D1 (r_m2 s) = Nsources s \<and> Ntargets s \<le> D2 (r_m2 s) \<and>
     length (X (r_m2 s)) = Nsources s * D2 (r_m2 s) \<and>
     D1 (dr_m2 s) = Nsources s \<and> Ntargets s \<le> D2 (dr_m2 s) \<and>
     length (X (dr_m2 s)) = Nsources s * D2 (dr_m2 s) \<and>
     D1 (J2 s) = Nsources s \<and> Ntargets s \<le> D2 (J2 s) \<and>
     length (X (J2 s)) = Nsources s * D2 (J2 s)"

text \<open>\<open>patch off vs xs\<close> is the buffer \<open>xs\<close> with the values \<open>vs\<close> stored from
  index \<open>off\<close> on; \<open>near s i\<close> lists the targets inside the cutoff of source \<open>i\<close>
  and \<open>dense_displacement s j i\<close> is the vector \<open>Displacements[j][i]\<close>.\<close>

definition patch :: "nat \<Rightarrow> 'a list \<Rightarrow> 'a list \<Rightarrow> 'a list" where
  "patch off vs xs = take off xs @ vs @ drop (off + length vs) xs"

definition in_cutoff :: "DistanceTableBA \<Rightarrow> nat \<Rightarrow> nat \<Rightarrow> bool" where
  "in_cutoff s i j \<longleftrightarrow> X (Distances s) ! (j * D2 (Distances s) + i) < Rmax s"

definition near :: "DistanceTableBA \<Rightarrow> nat \<Rightarrow> nat list" where
  "near s i = filter (in_cutoff s i) [0..<Ntargets s]"

definition dense_displacement :: "DistanceTableBA \<Rightarrow> nat \<Rightarrow> nat \<Rightarrow> real list" where
  "dense_displacement s j i =
     map (\<lambda>d. memoryPool s ! (j * BlockSize s + d * D2 (Distances s) + i)) [0..<D s]"

text \<open>The compact list of source \<open>i\<close> is complete in the buffers \<open>M\<close>, \<open>r_m2\<close>,
  \<open>dr_m2\<close>, \<open>J2\<close> (the invariant of the outer loop of \<open>donePbyP\<close>).\<close>

definition row_done ::
  "DistanceTableBA \<Rightarrow> nat \<Rightarrow> nat list \<times> real list \<times> real list list \<times> nat list \<Rightarrow> bool" where
  "row_done s i = (\<lambda>(m, rs, ds, jx).
     m ! i = length (near s i) \<and>
     (\<forall>n<length (near s i).
        jx ! (i * D2 (J2 s) + n) = near s i ! n \<and>
        rs ! (i * D2 (r_m2 s) + n) = X (Distances s) ! (near s i ! n * D2 (Distances s) + i) \<and>
        ds ! (i * D2 (dr_m2 s) + n) = map uminus (dense_displacement s (near s i ! n) i)))"

section \<open>Tables for the examples\<close>

text \<open>Two sources, two targets, one dimension, vector width one, cutoff one.
  A trial row is pending in \<open>Temp_r\<close> and \<open>Temp_dr\<close>.\<close>

definition example_table :: DistanceTableBA where
  "example_table =
     \<lparr>D = 1, Align = 1, Rmax = 1, Nsources = 2, Ntargets = 2, BlockSize = 2,
      N_SourceIndex = 2, N_VisitorIndex = 2,
      Distances = \<lparr>D1 = 2, D2 = 2, X = [1 / 2, 3, 2, 1 / 4]\<rparr>,
      memoryPool = [1 / 2, - 3, 2, - 1 / 4],
      Displacements = [\<lparr>ref_nLocal = 2, ref_nGhosts = 2, ref_offset = 0\<rparr>,
                       \<lparr>ref_nLocal = 2, ref_nGhosts = 2, ref_offset = 2\<rparr>],
      Temp_r = [5, 6], Temp_dr = \<lparr>nLocal = 2, nGhosts = 2, myData = [- 5, 6]\<rparr>,
      M = [0, 0],
      r_m2 = \<lparr>D1 = 2, D2 = 2, X = [0, 0, 0, 0]\<rparr>,
      dr_m2 = \<lparr>D1 = 2, D2 = 2, X = [[0], [0], [0], [0]]\<rparr>,
      J2 = \<lparr>D1 = 2, D2 = 2, X = [0, 0, 0, 0]\<rparr>\<rparr>"

text \<open>The same table after \<open>update 1\<close>.\<close>

definition example_committed :: DistanceTableBA where
  "example_committed =
     example_table\<lparr>Distances := \<lparr>D1 = 2, D2 = 2, X = [1 / 2, 3, 5, 6]\<rparr>,
                   memoryPool := [1 / 2, - 3, - 5, 6]\<rparr>"

text \<open>A boundary policy on a line, and the table after the trials at \<open>3\<close> and
  then \<open>4\<close>.\<close>

definition example_bc :: "real \<Rightarrow> nat \<Rightarrow> real \<times> (nat \<Rightarrow> real)" where
  "example_bc pos i = (\<bar>pos - real i\<bar>, \<lambda>d. pos - real i)"

definition example_trial :: DistanceTableBA where
  "example_trial =
     example_table\<lparr>Temp_r := [4, 3], Temp_dr := \<lparr>nLocal = 2, nGhosts = 2, myData = [4, 3]\<rparr>\<rparr>"

text \<open>The table with the cutoff widened to \<open>5/2\<close>, before and after
  \<open>donePbyP\<close>.\<close>

definition example_wide :: DistanceTableBA where
  "example_wide = example_table\<lparr>Rmax := 5 / 2\<rparr>"

definition example_compacted :: DistanceTableBA where
  "example_compacted =
     example_wide\<lparr>M := [2, 1],
        r_m2 := \<lparr>D1 = 2, D2 = 2, X = [1 / 2, 2, 1 / 4, 0]\<rparr>,
        dr_m2 := \<lparr>D1 = 2, D2 = 2, X = [[- 1 / 2], [- 2], [1 / 4], [0]]\<rparr>,
        J2 := \<lparr>D1 = 2, D2 = 2, X = [0, 1, 1, 0]\<rparr>\<rparr>"

section \<open>Inverse pairs and the rank-one update\<close>

text \<open>\<open>inverse_pair n m pinv\<close>: \<open>m\<close> and \<open>pinv\<close> are \<open>n \<times> n\<close> and \<open>pinv\<close>, read
  transposed, is the two-sided inverse of \<open>m\<close>.  This is the relation between
  \<open>psiMsave\<close> and \<open>psiMinv\<close> that \<open>checkMatrix\<close> tests.  \<open>sm_temp\<close> and
  \<open>sm_inverse\<close> are \<open>tempRowVec\<close> and \<open>psiMinv\<close> as \<open>updateRow\<close> leaves them in
  exact arithmetic.\<close>

definition square :: "nat \<Rightarrow> 'a list list \<Rightarrow> bool" where
  "square n a \<longleftrightarrow> length a = n \<and> list_all (\<lambda>row. length row = n) a"

definition inverse_pair :: "nat \<Rightarrow> real list list \<Rightarrow> real list list \<Rightarrow> bool" where
  "inverse_pair n m pinv \<longleftrightarrow>
     square n m \<and> square n pinv \<and>
     (\<forall>a\<in>{0..<n}. \<forall>b\<in>{0..<n}.
        (\<Sum>k = 0..<n. m ! a ! k * pinv ! b ! k) = (if a = b then 1 else 0)) \<and>
     (\<forall>a\<in>{0..<n}. \<forall>b\<in>{0..<n}.
        (\<Sum>k = 0..<n. pinv ! k ! a * m ! k ! b) = (if a = b then 1 else 0))"

definition sm_temp :: "nat \<Rightarrow> real list list \<Rightarrow> real list \<Rightarrow> nat \<Rightarrow> real \<Rightarrow> real list" where
  "sm_temp n b v r c = (map (\<lambda>j. c * dot (b ! j) v n) [0..<n])[r := 1 - c]"

definition sm_inverse :: "nat \<Rightarrow> real list list \<Rightarrow> real list \<Rightarrow> nat \<Rightarrow> real \<Rightarrow> real list list" where
  "sm_inverse n b v r c =
     map (\<lambda>j. map (\<lambda>i. b ! j ! i - b ! r ! i * sm_temp n b v r c ! j) [0..<n]) [0..<n]"

section \<open>Determinants for the examples\<close>

text \<open>A matrix that is not symmetric, with its inverse stored transposed; the
  generator returns \<open>3/4\<close> and then \<open>1/4\<close> for ever, so the trial row of electron
  \<open>3\<close> (row \<open>1\<close>, as \<open>FirstIndex = 2\<close>) is \<open>(1/4, -1/4)\<close>.  The same matrix with a
  generator that returns \<open>3/4\<close> and then \<open>1/2\<close>: the trial row is \<open>(1/4, 0)\<close>, the
  ratio \<open>-1/2\<close>, and every value that \<open>acceptMove\<close> computes is a small dyadic
  fraction, which binary floating point computes without rounding.  An LU
  helper as LAPACK behaves on a diagonal matrix: no row exchange, the factors
  are the matrix.\<close>

definition example_det :: "real DiracDeterminant" where
  "example_det =
     \<lparr>ddk = \<lparr>LogValue_view = 0, curRatio_view = 0, FirstIndex_view = 2,
              psiMinv = [[1, 0], [- 2, 1]], psiV = [0, 0], tempRowVec = [0, 0], rcopy = [0, 0],
              psiM = [[1, 0], [- 2, 1]], psiMsave = [[1, 2], [0, 1]]\<rparr>,
      LogValue = 0, curRatio = 1, FirstIndex = 2,
      myRandom = (\<lambda>j. if j = 0 then 3 / 4 else 1 / 4)\<rparr>"

definition example_det_trial :: "real DiracDeterminant" where
  "example_det_trial =
     example_det\<lparr>ddk := (ddk example_det)\<lparr>psiV := [1 / 4, - 1 / 4]\<rparr>,
                 myRandom := (\<lambda>j. if j + 2 = 0 then 3 / 4 else 1 / 4), curRatio := - 3 / 4\<rparr>"

definition example_dyadic :: "real DiracDeterminant" where
  "example_dyadic = example_det\<lparr>myRandom := (\<lambda>j. if j = 0 then 3 / 4 else 1 / 2)\<rparr>"

definition example_dyadic_trial :: "real DiracDeterminant" where
  "example_dyadic_trial =
     example_dyadic\<lparr>ddk := (ddk example_dyadic)\<lparr>psiV := [1 / 4, 0]\<rparr>,
                    myRandom := (\<lambda>j. if j + 2 = 0 then 3 / 4 else 1 / 2), curRatio := - 1 / 2\<rparr>"

definition example_dyadic_accepted :: "real DiracDeterminant" where
  "example_dyadic_accepted =
     example_dyadic_trial\<lparr>ddk := (ddk example_dyadic_trial)\<lparr>tempRowVec := [- 1 / 2, 3],
        rcopy := [- 2, 1], psiMinv := [[0, 1 / 2], [4, - 2]],
        psiMsave := [[1, 2], [1 / 4, 0]]\<rparr>\<rparr>"

text \<open>An arithmetic with a value that is not a number: \<open>None\<close> is the quotient by
  zero, and the result of every operation that has it as an argument.  The
  identity with the pending trial row \<open>(1/4, 0)\<close> for row \<open>1\<close>, which makes the
  matrix singular: the ratio is zero.  After \<open>acceptMove\<close> no entry of \<open>psiMinv\<close>
  is a number.\<close>

definition times_opt :: "real option \<Rightarrow> real option \<Rightarrow> real option" where
  "times_opt a b = (case (a, b) of (Some x, Some y) \<Rightarrow> Some (x * y) | _ \<Rightarrow> None)"

definition divide_opt :: "real option \<Rightarrow> real option \<Rightarrow> real option" where
  "divide_opt a b =
     (case (a, b) of (Some x, Some y) \<Rightarrow> if y = 0 then None else Some (x / y) | _ \<Rightarrow> None)"

definition ext_arith :: "real option arith" where
  "ext_arith =
     \<lparr>v_zero = Some 0, v_one = Some 1, v_add = plus_opt,
      v_sub = (\<lambda>a b. plus_opt a (map_option uminus b)), v_mul = times_opt, v_div = divide_opt,
      v_neg = map_option uminus\<rparr>"

definition example_zero_trial :: "real option DiracDeterminant" where
  "example_zero_trial =
     \<lparr>ddk = \<lparr>LogValue_view = Some 0, curRatio_view = Some 0, FirstIndex_view = 0,
              psiMinv = [[Some 1, Some 0], [Some 0, Some 1]], psiV = [Some (1 / 4), Some 0],
              tempRowVec = [Some 0, Some 0], rcopy = [Some 0, Some 0],
              psiM = [[Some 1, Some 0], [Some 0, Some 1]],
              psiMsave = [[Some 1, Some 0], [Some 0, Some 1]]\<rparr>,
      LogValue = Some 0, curRatio = Some 0, FirstIndex = 0,
      myRandom = (\<lambda>j. Some (1 / 2))\<rparr>"

definition example_zero_accepted :: "real option DiracDeterminant" where
  "example_zero_accepted =
     example_zero_trial\<lparr>ddk := (ddk example_zero_trial)\<lparr>tempRowVec := [None, None],
        rcopy := [Some 0, Some 1], psiMinv := [[None, None], [None, None]],
        psiMsave := [[Some 1, Some 0], [Some (1 / 4), Some 0]]\<rparr>\<rparr>"

definition diag_lah :: LinAlgHelper where
  "diag_lah = \<lparr>getrf = (\<lambda>a. (a, map (\<lambda>i. int i + 1) [0..<length a])),
               getri = (\<lambda>lu piv. map (map inverse) lu)\<rparr>"

definition ddk_of :: "real list list \<Rightarrow> real DiracDeterminantKokkos" where
  "ddk_of m =
     \<lparr>LogValue_view = 0, curRatio_view = 0, FirstIndex_view = 0,
      psiMinv = m, psiV = replicate (length m) 0, tempRowVec = replicate (length m) 0,
      rcopy = replicate (length m) 0, psiM = m, psiMsave = m\<rparr>"

section \<open>Loops as write lists\<close>

lemma thenE_Inr [simp]: "thenE (Inr x) f = f x" by (simp add: thenE_def)

lemma thenE_Inl [simp]: "thenE (Inl e) f = Inl e" by (simp add: thenE_def)

lemma thenE_eq_Inr: "thenE m f = Inr y \<longleftrightarrow> (\<exists>x. m = Inr x \<and> f x = Inr y)"
  by (cases m) simp_all

lemma foldE_append: "foldE f (xs @ ys) s = thenE (foldE f xs s) (foldE f ys)"
  by (induction xs arbitrary: s) (simp_all add: thenE_def split: sum.splits)

lemma foldE_snoc: "foldE f (xs @ [x]) s = thenE (foldE f xs s) (f x)"
proof -
  have "foldE f [x] = f x" by (rule ext) (simp add: thenE_def split: sum.splits)
  then show ?thesis by (simp add: foldE_append)
qed

lemma foldE_upt_Suc: "foldE f [0..<Suc n] s = thenE (foldE f [0..<n] s) (f n)"
  by (simp add: foldE_snoc)

lemma length_writes_pure [simp]: "length (writes_pure W b) = length b"
  by (induction W arbitrary: b) (auto simp: writes_pure_def)

lemma apply_writes_Nil [simp]: "apply_writes [] b = Inr b" by (simp add: apply_writes_def)

lemma apply_writes_Cons: "apply_writes ((i, v) # W) b = thenE (wr b i v) (apply_writes W)"
  unfolding apply_writes_def by (simp add: thenE_def split: sum.splits)

lemma apply_writes_eq:
  "apply_writes W b = (if \<forall>(i, v) \<in> set W. i < length b then Inr (writes_pure W b) else Inl OutOfBounds)"
proof (induction W arbitrary: b)
  case Nil
  then show ?case by (simp add: writes_pure_def)
next
  case (Cons p W)
  obtain i v where p: "p = (i, v)" by (cases p)
  show ?case
  proof (cases "i < length b")
    case True
    then show ?thesis using Cons[of "b[i := v]"] by (simp add: p apply_writes_Cons wr_def writes_pure_def)
  next
    case False
    then show ?thesis by (auto simp add: p apply_writes_Cons wr_def)
  qed
qed

lemma nth_writes_pure:
  "j < length b \<Longrightarrow> writes_pure W b ! j = (case map_of (rev W) j of Some v \<Rightarrow> v | None \<Rightarrow> b ! j)"
proof (induction W arbitrary: b)
  case Nil
  then show ?case by (simp add: writes_pure_def)
next
  case (Cons p W)
  obtain i v where p: "p = (i, v)" by (cases p)
  have "writes_pure (p # W) b = writes_pure W (b[i := v])" by (simp add: p writes_pure_def)
  then show ?case using Cons.IH[of "b[i := v]"] Cons.prems
    by (auto simp: p map_add_def split: option.splits)
qed

lemma writes_pure_idem: "writes_pure W (writes_pure W b) = writes_pure W b"
  by (rule nth_equalityI) (auto simp: nth_writes_pure split: option.splits)

lemma apply_writes_idem: "apply_writes W b = Inr b' \<Longrightarrow> apply_writes W b' = Inr b'"
  by (auto simp: apply_writes_eq writes_pure_idem split: if_splits)

lemma apply_writes_append:
  "apply_writes (W1 @ W2) b = thenE (apply_writes W1 b) (apply_writes W2)"
proof -
  have "apply_writes W2 = foldE (\<lambda>(i, v) b. wr b i v) W2"
    by (rule ext) (simp add: apply_writes_def)
  then show ?thesis by (simp add: apply_writes_def foldE_append)
qed

lemma apply_writes_cases: "apply_writes W b = Inl e \<Longrightarrow> e = OutOfBounds"
  by (auto simp: apply_writes_eq split: if_splits)

lemma thenE_apply_writes_fail:
  "thenE (apply_writes W b) (\<lambda>_. Inl OutOfBounds) = Inl OutOfBounds"
  by (auto simp: apply_writes_eq)

lemma copy_n_eq:
  "copy_n src soff n dst doff =
     (if \<forall>k<n. soff + k < length src
      then apply_writes (map (\<lambda>k. (doff + k, src ! (soff + k))) [0..<n]) dst
      else Inl OutOfBounds)"
proof (induction n)
  case 0
  then show ?case by (simp add: copy_n_def)
next
  case (Suc n)
  have step: "copy_n src soff (Suc n) dst doff =
      thenE (copy_n src soff n dst doff) (\<lambda>d. thenE (rd src (soff + n)) (\<lambda>v. wr d (doff + n) v))"
    by (simp add: copy_n_def foldE_snoc)
  show ?case
  proof (cases "\<forall>k<n. soff + k < length src")
    case True
    note all = this
    show ?thesis
    proof (cases "soff + n < length src")
      case True
      have "\<forall>k<Suc n. soff + k < length src" using all True by (auto simp: less_Suc_eq)
      moreover have "(\<lambda>d. thenE (rd src (soff + n)) (\<lambda>v. wr d (doff + n) v))
           = apply_writes [(doff + n, src ! (soff + n))]"
        using True by (auto simp: rd_def apply_writes_Cons fun_eq_iff thenE_def split: sum.splits)
      ultimately show ?thesis using all Suc
        by (simp add: step apply_writes_append del: upt_Suc add: upt_Suc_append)
    next
      case False
      have "\<not> (\<forall>k<Suc n. soff + k < length src)" using False by auto
      moreover have "(\<lambda>d. thenE (rd src (soff + n)) (\<lambda>v. wr d (doff + n) v))
           = (\<lambda>_. Inl OutOfBounds)"
        using False by (auto simp: rd_def fun_eq_iff)
      moreover have "copy_n src soff n dst doff =
          apply_writes (map (\<lambda>k. (doff + k, src ! (soff + k))) [0..<n]) dst"
        using all Suc by simp
      ultimately show ?thesis
        by (simp only: step thenE_apply_writes_fail if_False)
    qed
  next
    case False
    then have neg: "\<not> (\<forall>k<Suc n. soff + k < length src)" by (auto simp: less_Suc_eq)
    have c: "copy_n src soff n dst doff = Inl OutOfBounds"
      using False Suc by (simp only: if_False)
    show ?thesis
      by (simp only: step c thenE_Inl neg if_False)
  qed
qed

lemma foldE_writes:
  "foldE (\<lambda>x b. if ok x then apply_writes (W x) b else Inl OutOfBounds) xs b =
     (if \<forall>x\<in>set xs. ok x then apply_writes (concat (map W xs)) b else Inl OutOfBounds)"
proof (induction xs arbitrary: b)
  case Nil
  then show ?case by simp
next
  case (Cons x xs)
  have IH: "foldE (\<lambda>x b. if ok x then apply_writes (W x) b else Inl OutOfBounds) xs =
     (\<lambda>b. if \<forall>x\<in>set xs. ok x then apply_writes (concat (map W xs)) b else Inl OutOfBounds)"
    by (rule ext) (rule Cons.IH)
  show ?case
  proof (cases "\<forall>x\<in>set xs. ok x")
    case True
    then show ?thesis by (simp add: IH apply_writes_append)
  next
    case False
    then have neg: "\<not> (\<forall>y\<in>set (x # xs). ok y)" by simp
    have r: "foldE (\<lambda>x b. if ok x then apply_writes (W x) b else Inl OutOfBounds) xs =
       (\<lambda>_. Inl OutOfBounds)"
      using False by (simp only: IH if_False)
    show ?thesis
      by (cases "ok x") (simp_all only: neg if_False if_True foldE.simps r thenE_apply_writes_fail thenE_Inl)
  qed
qed

lemma update_eq:
  "update iat s =
     thenE (if \<forall>k<Nsources s. k < length (Temp_r s)
            then apply_writes (row_writes s iat) (X (Distances s)) else Inl OutOfBounds) (\<lambda>r.
     thenE (if update_reads_ok s iat
            then apply_writes (pool_writes s iat) (memoryPool s) else Inl OutOfBounds) (\<lambda>pool.
     Inr (s\<lparr>Distances := (Distances s)\<lparr>X := r\<rparr>, memoryPool := pool\<rparr>)))"
proof -
  have body: "(\<lambda>idim pool.
              thenE (rd (Displacements s) iat) (\<lambda>ref.
              copy_n (myData (Temp_dr s)) (idim * nGhosts (Temp_dr s)) (Nsources s)
                pool (ref_offset ref + idim * ref_nGhosts ref)))
     = (\<lambda>idim pool. if iat < length (Displacements s) \<and>
        (\<forall>k<Nsources s. idim * nGhosts (Temp_dr s) + k < length (myData (Temp_dr s)))
        then apply_writes (map (\<lambda>k. (ref_offset (Displacements s ! iat) + idim * ref_nGhosts (Displacements s ! iat) + k,
                 myData (Temp_dr s) ! (idim * nGhosts (Temp_dr s) + k))) [0..<Nsources s]) pool
        else Inl OutOfBounds)"
    by (intro ext) (auto simp add: rd_def copy_n_eq)
  have c1: "copy_n (Temp_r s) 0 (Nsources s) (X (Distances s)) (iat * D2 (Distances s)) =
      (if \<forall>k<Nsources s. k < length (Temp_r s)
       then apply_writes (row_writes s iat) (X (Distances s)) else Inl OutOfBounds)"
    by (auto simp add: copy_n_eq row_writes_def)
  have ok: "(\<forall>idim\<in>set [0..<D s]. iat < length (Displacements s) \<and>
        (\<forall>k<Nsources s. idim * nGhosts (Temp_dr s) + k < length (myData (Temp_dr s))))
      = update_reads_ok s iat"
    by (auto simp: update_reads_ok_def)
  show ?thesis
    unfolding update_def body foldE_writes c1 ok pool_writes_def [symmetric] ..
qed

lemma in_range_simps [simp]:
  "in_range [] b" "in_range (p # W) b \<longleftrightarrow> fst p < length b \<and> in_range W b"
  "in_range (W1 @ W2) b \<longleftrightarrow> in_range W1 b \<and> in_range W2 b"
  by (auto simp: in_range_def)

lemma in_range_length: "length b' = length b \<Longrightarrow> in_range W b' = in_range W b"
  by (simp add: in_range_def)

lemma apply_writes_eq': "apply_writes W b = (if in_range W b then Inr (writes_pure W b) else Inl OutOfBounds)"
  unfolding apply_writes_eq in_range_def list_all_iff by (simp add: case_prod_beta)

lemma writes_pure_Nil [simp]: "writes_pure [] b = b" by (simp add: writes_pure_def)

lemma writes_pure_Cons [simp]: "writes_pure (p # W) b = writes_pure W (b[fst p := snd p])"
  by (cases p) (simp add: writes_pure_def)

lemma writes_pure_append [simp]: "writes_pure (W1 @ W2) b = writes_pure W2 (writes_pure W1 b)"
  by (simp add: writes_pure_def)

lemma wr_in: "i < length xs \<Longrightarrow> wr xs i v = Inr (xs[i := v])" by (simp add: wr_def)

lemma wr_out: "\<not> i < length xs \<Longrightarrow> wr xs i v = Inl OutOfBounds" by (simp add: wr_def)

lemma foldE_map_writes:
  "foldE (\<lambda>x b. wr b (ix x) (vl x)) xs b = apply_writes (map (\<lambda>x. (ix x, vl x)) xs) b"
  by (induction xs arbitrary: b) (simp_all add: apply_writes_Cons thenE_def split: sum.splits)

lemma computeDistances_fold:
  assumes body: "body = (\<lambda>iat (r, dr).
        thenE (wr r (r_off + iat) (fst (bc pos iat))) (\<lambda>r'.
        thenE (foldE (\<lambda>idim b. wr b (dr_off + idim * stride + iat) (snd (bc pos iat) idim))
                 [0..<d] dr) (\<lambda>dr'.
        Inr (r', dr'))))"
  shows "foldE body js (r, dr) =
   (if in_range (cd_r_writes bc pos r_off js) r \<and> in_range (cd_dr_writes bc d pos dr_off stride js) dr
    then Inr (writes_pure (cd_r_writes bc pos r_off js) r,
              writes_pure (cd_dr_writes bc d pos dr_off stride js) dr)
    else Inl OutOfBounds)"
proof (induction js arbitrary: r dr)
  case Nil
  then show ?case by (simp add: cd_r_writes_def cd_dr_writes_def)
next
  case (Cons j js)
  let ?Wd = "map (\<lambda>idim. (dr_off + idim * stride + j, snd (bc pos j) idim)) [0..<d]"
  have Wr: "cd_r_writes bc pos r_off (j # js) = (r_off + j, fst (bc pos j)) # cd_r_writes bc pos r_off js"
    by (simp add: cd_r_writes_def)
  have Wdr: "cd_dr_writes bc d pos dr_off stride (j # js) = ?Wd @ cd_dr_writes bc d pos dr_off stride js"
    by (simp add: cd_dr_writes_def)
  have step: "body j (r, dr) =
      (if r_off + j < length r \<and> in_range ?Wd dr
       then Inr (r[r_off + j := fst (bc pos j)], writes_pure ?Wd dr) else Inl OutOfBounds)"
    by (cases "r_off + j < length r") (simp_all add: body foldE_map_writes apply_writes_eq' wr_in wr_out)
  show ?case
  proof (cases "r_off + j < length r \<and> in_range ?Wd dr")
    case True
    then show ?thesis
      by (simp add: step Cons.IH Wr Wdr
          in_range_length[of "writes_pure ?Wd dr" dr] in_range_length[of "r[r_off + j := fst (bc pos j)]" r])
  next
    case False
    then show ?thesis
      by (auto simp add: step Wr Wdr)
  qed
qed

lemma computeDistances_eq:
  "computeDistances bc d pos r_off dr_off stride first lst (r, dr) =
   (if in_range (cd_r_writes bc pos r_off [first..<lst]) r \<and>
       in_range (cd_dr_writes bc d pos dr_off stride [first..<lst]) dr
    then Inr (writes_pure (cd_r_writes bc pos r_off [first..<lst]) r,
              writes_pure (cd_dr_writes bc d pos dr_off stride [first..<lst]) dr)
    else Inl OutOfBounds)"
  unfolding computeDistances_def by (rule computeDistances_fold) (rule refl)

section \<open>Allocated tables\<close>

lemma getAlignedSize_ge: "0 < w \<Longrightarrow> n \<le> getAlignedSize w n"
proof -
  assume w: "0 < w"
  have "n + w - 1 = (n + w - 1) div w * w + (n + w - 1) mod w" by simp
  moreover have "(n + w - 1) mod w \<le> w - 1" using w
    by (metis Suc_pred' less_Suc_eq_le mod_less_divisor)
  ultimately have "n + w - 1 \<le> (n + w - 1) div w * w + (w - 1)" by linarith
  then show ?thesis using w by (simp add: getAlignedSize_def)
qed

lemma length_vec_resize [simp]: "length (vec_resize n xs) = n"
  by (simp add: vec_resize_def)

lemma resize_wf:
  assumes "0 < Align s" "(ns * nt) mod 2 ^ 32 \<noteq> 0"
  shows "wf_table (resize ns nt s)"
  using assms getAlignedSize_ge[of "Align s" ns] getAlignedSize_ge[of "Align s" nt]
  by (simp add: resize_def wf_table_def Let_def Matrix_resize_def Matrix_resize_pos_def
      SoA_resize_def attachReference_def)

lemma block_index_less: "a < n \<Longrightarrow> k < (g::nat) \<Longrightarrow> a * g + k < n * g"
proof -
  assume a: "a < n" and k: "k < g"
  have "a * g + k < a * g + g" using k by simp
  also have "\<dots> = Suc a * g" by simp
  also have "\<dots> \<le> n * g" using a by (intro mult_le_mono1) simp
  finally show ?thesis .
qed

lemma block_index_unique:
  assumes "a * g + k = a' * g + k'" "k < (g::nat)" "k' < g"
  shows "a = a' \<and> k = k'"
proof -
  have g: "0 < g" using assms(2) by simp
  have "(a * g + k) div g = a" "(a' * g + k') div g = a'" using assms(2,3) g by simp_all
  then have "a = a'" using assms(1) by metis
  then show ?thesis using assms(1) by simp
qed

lemma nth_writes_pure_notin:
  "j < length b \<Longrightarrow> j \<notin> fst ` set W \<Longrightarrow> writes_pure W b ! j = b ! j"
  by (auto simp: nth_writes_pure split: option.splits dest!: map_of_SomeD intro: rev_image_eqI)

lemma nth_writes_pure_in:
  assumes "j < length b" "(j, v) \<in> set W" "\<And>v'. (j, v') \<in> set W \<Longrightarrow> v' = v"
  shows "writes_pure W b ! j = v"
proof (cases "map_of (rev W) j")
  case None
  then have "j \<notin> fst ` set W" by (simp add: map_of_eq_None_iff)
  then show ?thesis using assms(2) by (auto intro: rev_image_eqI)
next
  case (Some v')
  then have "(j, v') \<in> set W" by (auto dest: map_of_SomeD)
  then show ?thesis using assms Some by (simp add: nth_writes_pure)
qed

section \<open>Trial and commit on an allocated table\<close>

lemma set_concat_map_map:
  "p \<in> set (concat (map (\<lambda>a. map (f a) bs) as)) \<longleftrightarrow> (\<exists>a\<in>set as. \<exists>b\<in>set bs. p = f a b)"
  by auto

lemma set_row_writes:
  "(j, v) \<in> set (row_writes s iat) \<longleftrightarrow>
     (\<exists>k<Nsources s. j = iat * D2 (Distances s) + k \<and> v = Temp_r s ! k)"
  by (auto simp: row_writes_def)

lemma set_pool_writes:
  "(j, v) \<in> set (pool_writes s iat) \<longleftrightarrow>
     (\<exists>idim\<in>{0..<D s}. \<exists>k\<in>{0..<Nsources s}.
        (j, v) = (ref_offset (Displacements s ! iat) + idim * ref_nGhosts (Displacements s ! iat) + k,
                  myData (Temp_dr s) ! (idim * nGhosts (Temp_dr s) + k)))"
  unfolding pool_writes_def set_concat_map_map set_upt ..

lemma set_cd_r_writes:
  "(j, v) \<in> set (cd_r_writes bc pos r_off [first..<lst]) \<longleftrightarrow>
     (\<exists>iat. first \<le> iat \<and> iat < lst \<and> j = r_off + iat \<and> v = fst (bc pos iat))"
  by (auto simp: cd_r_writes_def)

lemma set_cd_dr_writes:
  "(j, v) \<in> set (cd_dr_writes bc d pos dr_off stride [first..<lst]) \<longleftrightarrow>
     (\<exists>iat\<in>{first..<lst}. \<exists>idim\<in>{0..<d}.
        (j, v) = (dr_off + idim * stride + iat, snd (bc pos iat) idim))"
  unfolding cd_dr_writes_def set_concat_map_map set_upt ..

lemma in_range_iff: "in_range W b \<longleftrightarrow> (\<forall>j v. (j, v) \<in> set W \<longrightarrow> j < length b)"
  by (auto simp: in_range_def list_all_iff)

lemma move_eq:
  "move bc rnew s =
     (if in_range (cd_r_writes bc rnew 0 [0..<Nsources s]) (Temp_r s) \<and>
         in_range (cd_dr_writes bc (D s) rnew 0 (nGhosts (Temp_dr s)) [0..<Nsources s]) (myData (Temp_dr s))
      then Inr (s\<lparr>Temp_r := writes_pure (cd_r_writes bc rnew 0 [0..<Nsources s]) (Temp_r s),
                  Temp_dr := (Temp_dr s)\<lparr>myData :=
                    writes_pure (cd_dr_writes bc (D s) rnew 0 (nGhosts (Temp_dr s)) [0..<Nsources s])
                      (myData (Temp_dr s))\<rparr>\<rparr>)
      else Inl OutOfBounds)"
  by (simp add: move_def computeDistances_eq)

lemma move_wf:
  assumes wf: "wf_table s"
  shows "\<exists>s'. move bc rnew s = Inr s' \<and> wf_table s' \<and>
           s' = s\<lparr>Temp_r := Temp_r s', Temp_dr := Temp_dr s'\<rparr> \<and>
           nGhosts (Temp_dr s') = nGhosts (Temp_dr s) \<and>
           (\<forall>k<Nsources s. Temp_r s' ! k = fst (bc rnew k)) \<and>
           (\<forall>d<D s. \<forall>k<Nsources s.
              myData (Temp_dr s') ! (d * nGhosts (Temp_dr s) + k) = snd (bc rnew k) d)"
proof -
  let ?Wr = "cd_r_writes bc rnew 0 [0..<Nsources s]"
  let ?Wd = "cd_dr_writes bc (D s) rnew 0 (nGhosts (Temp_dr s)) [0..<Nsources s]"
  let ?g = "nGhosts (Temp_dr s)"
  have len: "length (Temp_r s) = Nsources s" "Nsources s \<le> ?g"
    "length (myData (Temp_dr s)) = ?g * D s"
    using wf by (simp_all add: wf_table_def)
  have idx: "d * ?g + k < length (myData (Temp_dr s))" if "d < D s" "k < Nsources s" for d k
    using block_index_less[of d "D s" k ?g] that len by (simp add: mult.commute)
  have r1: "in_range ?Wr (Temp_r s)"
    by (auto simp: in_range_iff set_cd_r_writes len)
  have r2: "in_range ?Wd (myData (Temp_dr s))"
    using idx by (auto simp: in_range_iff set_cd_dr_writes)
  let ?s' = "s\<lparr>Temp_r := writes_pure ?Wr (Temp_r s),
                Temp_dr := (Temp_dr s)\<lparr>myData := writes_pure ?Wd (myData (Temp_dr s))\<rparr>\<rparr>"
  have m: "move bc rnew s = Inr ?s'" using r1 r2 by (simp add: move_eq)
  have w: "wf_table ?s'" using wf by (simp add: wf_table_def)
  have a: "Temp_r ?s' ! k = fst (bc rnew k)" if "k < Nsources s" for k
  proof -
    have "writes_pure ?Wr (Temp_r s) ! k = fst (bc rnew k)"
      by (rule nth_writes_pure_in) (use that len in \<open>auto simp: set_cd_r_writes\<close>)
    then show ?thesis by simp
  qed
  have b: "myData (Temp_dr ?s') ! (d * ?g + k) = snd (bc rnew k) d"
    if "d < D s" "k < Nsources s" for d k
  proof -
    have "writes_pure ?Wd (myData (Temp_dr s)) ! (d * ?g + k) = snd (bc rnew k) d"
    proof (rule nth_writes_pure_in)
      show "d * ?g + k < length (myData (Temp_dr s))" using idx that by simp
      show "(d * ?g + k, snd (bc rnew k) d) \<in> set ?Wd"
        unfolding set_cd_dr_writes
        by (rule bexI[of _ k], rule bexI[of _ d]) (use that in simp_all)
      fix v' assume "(d * ?g + k, v') \<in> set ?Wd"
      then obtain iat idim where *: "iat < Nsources s" "idim < D s"
        "d * ?g + k = idim * ?g + iat" "v' = snd (bc rnew iat) idim"
        by (auto simp: set_cd_dr_writes)
      have "d = idim \<and> k = iat"
        by (rule block_index_unique[OF *(3)]) (use that * len in auto)
      then show "v' = snd (bc rnew k) d" using * by simp
    qed
    then show ?thesis by simp
  qed
  show ?thesis
    by (rule exI[of _ ?s']) (use m w a b in simp)
qed

lemma update_wf:
  assumes wf: "wf_table s" and iat: "iat < Ntargets s"
  shows "\<exists>s2. update iat s = Inr s2 \<and> wf_table s2 \<and>
           s2 = s\<lparr>Distances := (Distances s)\<lparr>X := X (Distances s2)\<rparr>, memoryPool := memoryPool s2\<rparr> \<and>
           (\<forall>k<Nsources s. X (Distances s2) ! (iat * D2 (Distances s) + k) = Temp_r s ! k) \<and>
           (\<forall>d<D s. \<forall>k<Nsources s.
              memoryPool s2 ! (iat * BlockSize s + d * D2 (Distances s) + k) =
              myData (Temp_dr s) ! (d * nGhosts (Temp_dr s) + k)) \<and>
           (\<forall>j<Ntargets s. \<forall>k<D2 (Distances s). j \<noteq> iat \<longrightarrow>
              X (Distances s2) ! (j * D2 (Distances s) + k) = X (Distances s) ! (j * D2 (Distances s) + k)) \<and>
           (\<forall>j<Ntargets s. \<forall>i<BlockSize s. j \<noteq> iat \<longrightarrow>
              memoryPool s2 ! (j * BlockSize s + i) = memoryPool s ! (j * BlockSize s + i))"
proof -
  let ?g = "D2 (Distances s)" and ?B = "BlockSize s" and ?tg = "nGhosts (Temp_dr s)"
  let ?Wr = "row_writes s iat" and ?Wp = "pool_writes s iat"
  have len: "length (Temp_r s) = Nsources s" "Nsources s \<le> ?tg"
    "length (myData (Temp_dr s)) = ?tg * D s" "Nsources s \<le> ?g"
    "length (X (Distances s)) = Ntargets s * ?g" "?B = ?g * D s"
    "length (memoryPool s) = Ntargets s * ?B" "length (Displacements s) = Ntargets s"
    using wf by (simp_all add: wf_table_def)
  have ref: "ref_offset (Displacements s ! iat) = iat * ?B" "ref_nGhosts (Displacements s ! iat) = ?g"
    using wf iat by (simp_all add: wf_table_def attachReference_def)
  have blk: "d * ?g + k < ?B" if "d < D s" "k < Nsources s" for d k
    using block_index_less[of d "D s" k ?g] that len by (simp add: mult.commute)
  have ok1: "\<forall>k<Nsources s. k < length (Temp_r s)" using len by simp
  have ok2: "update_reads_ok s iat"
    unfolding update_reads_ok_def
    using block_index_less[of _ "D s" _ ?tg] len iat by (auto simp: mult.commute)
  have setp: "(j, v) \<in> set ?Wp \<longleftrightarrow>
     (\<exists>d\<in>{0..<D s}. \<exists>k\<in>{0..<Nsources s}.
        (j, v) = (iat * ?B + d * ?g + k, myData (Temp_dr s) ! (d * ?tg + k)))" for j v
    unfolding set_pool_writes ref ..
  have r1: "in_range ?Wr (X (Distances s))"
    using block_index_less[of iat "Ntargets s" _ ?g] iat len
    by (auto simp: in_range_iff set_row_writes)
  have r2: "in_range ?Wp (memoryPool s)"
  proof -
    have "j < length (memoryPool s)" if "(j, v) \<in> set ?Wp" for j v
    proof -
      from that obtain d k where *: "d < D s" "k < Nsources s" "j = iat * ?B + d * ?g + k"
        by (auto simp: setp)
      show ?thesis
        using block_index_less[OF iat blk[OF *(1,2)]] * len by (simp add: add.assoc)
    qed
    then show ?thesis by (auto simp: in_range_iff)
  qed
  let ?X2 = "writes_pure ?Wr (X (Distances s))" and ?P2 = "writes_pure ?Wp (memoryPool s)"
  let ?s2 = "s\<lparr>Distances := (Distances s)\<lparr>X := ?X2\<rparr>, memoryPool := ?P2\<rparr>"
  have u: "update iat s = Inr ?s2"
    using ok1 ok2 r1 r2 by (simp add: update_eq apply_writes_eq')
  have w: "wf_table ?s2" using wf by (simp add: wf_table_def)
  have a: "?X2 ! (iat * ?g + k) = Temp_r s ! k" if "k < Nsources s" for k
  proof (rule nth_writes_pure_in)
    show "iat * ?g + k < length (X (Distances s))"
      using block_index_less[of iat "Ntargets s" k ?g] iat that len by simp
    show "(iat * ?g + k, Temp_r s ! k) \<in> set ?Wr" using that by (auto simp: set_row_writes)
    show "\<And>v'. (iat * ?g + k, v') \<in> set ?Wr \<Longrightarrow> v' = Temp_r s ! k"
      by (auto simp: set_row_writes)
  qed
  have b: "?P2 ! (iat * ?B + d * ?g + k) = myData (Temp_dr s) ! (d * ?tg + k)"
    if "d < D s" "k < Nsources s" for d k
  proof (rule nth_writes_pure_in)
    show "iat * ?B + d * ?g + k < length (memoryPool s)"
      using block_index_less[OF iat blk[OF that]] len by (simp add: add.assoc)
    show "(iat * ?B + d * ?g + k, myData (Temp_dr s) ! (d * ?tg + k)) \<in> set ?Wp"
      unfolding setp by (rule bexI[of _ d], rule bexI[of _ k]) (use that in simp_all)
    fix v' assume "(iat * ?B + d * ?g + k, v') \<in> set ?Wp"
    then obtain d' k' where *: "d' < D s" "k' < Nsources s"
      "iat * ?B + d * ?g + k = iat * ?B + d' * ?g + k'" "v' = myData (Temp_dr s) ! (d' * ?tg + k')"
      by (auto simp: setp)
    have "d * ?g + k = d' * ?g + k'" using *(3) by simp
    then have "d = d' \<and> k = k'"
      by (rule block_index_unique) (use that * len in auto)
    then show "v' = myData (Temp_dr s) ! (d * ?tg + k)" using * by simp
  qed
  have c: "?X2 ! (j * ?g + k) = X (Distances s) ! (j * ?g + k)"
    if "j < Ntargets s" "k < ?g" "j \<noteq> iat" for j k
  proof (rule nth_writes_pure_notin)
    show "j * ?g + k < length (X (Distances s))"
      using block_index_less[of j "Ntargets s" k ?g] that len by simp
    show "j * ?g + k \<notin> fst ` set ?Wr"
    proof
      assume "j * ?g + k \<in> fst ` set ?Wr"
      then obtain k' where *: "k' < Nsources s" "j * ?g + k = iat * ?g + k'"
        by (auto simp: set_row_writes)
      have "j = iat \<and> k = k'"
        by (rule block_index_unique[OF *(2)]) (use that * len in auto)
      then show False using that by simp
    qed
  qed
  have d: "?P2 ! (j * ?B + i) = memoryPool s ! (j * ?B + i)"
    if "j < Ntargets s" "i < ?B" "j \<noteq> iat" for j i
  proof (rule nth_writes_pure_notin)
    show "j * ?B + i < length (memoryPool s)"
      using block_index_less[of j "Ntargets s" i ?B] that len by simp
    show "j * ?B + i \<notin> fst ` set ?Wp"
    proof
      assume "j * ?B + i \<in> fst ` set ?Wp"
      then obtain d k where *: "d < D s" "k < Nsources s" "j * ?B + i = iat * ?B + d * ?g + k"
        by (auto simp: setp)
      have "j * ?B + i = iat * ?B + (d * ?g + k)" using *(3) by simp
      then have "j = iat \<and> i = d * ?g + k"
        by (rule block_index_unique) (use that blk[OF *(1,2)] in auto)
      then show False using that by simp
    qed
  qed
  show ?thesis
    by (rule exI[of _ ?s2]) (use u w a b c d in simp)
qed

lemma moves_wf:
  assumes wf: "wf_table s"
  shows "\<exists>s1. foldE (move bc) ps s = Inr s1 \<and> wf_table s1 \<and>
           s1 = s\<lparr>Temp_r := Temp_r s1, Temp_dr := Temp_dr s1\<rparr> \<and>
           nGhosts (Temp_dr s1) = nGhosts (Temp_dr s) \<and>
           (ps \<noteq> [] \<longrightarrow>
             (\<forall>k<Nsources s. Temp_r s1 ! k = fst (bc (last ps) k)) \<and>
             (\<forall>d<D s. \<forall>k<Nsources s.
                myData (Temp_dr s1) ! (d * nGhosts (Temp_dr s) + k) = snd (bc (last ps) k) d))"
  using wf
proof (induction ps arbitrary: s)
  case Nil
  then show ?case by simp
next
  case (Cons p ps)
  from move_wf[OF Cons.prems, of bc p] obtain s' where
    m: "move bc p s = Inr s'" and w: "wf_table s'"
    and f: "s' = s\<lparr>Temp_r := Temp_r s', Temp_dr := Temp_dr s'\<rparr>"
    and g: "nGhosts (Temp_dr s') = nGhosts (Temp_dr s)"
    and v: "\<forall>k<Nsources s. Temp_r s' ! k = fst (bc p k)"
      "\<forall>d<D s. \<forall>k<Nsources s. myData (Temp_dr s') ! (d * nGhosts (Temp_dr s) + k) = snd (bc p k) d"
    by blast
  have same: "Nsources s' = Nsources s" "D s' = D s"
    by (subst f, simp)+
  from Cons.IH[OF w] obtain s1 where
    m1: "foldE (move bc) ps s' = Inr s1" and w1: "wf_table s1"
    and f1: "s1 = s'\<lparr>Temp_r := Temp_r s1, Temp_dr := Temp_dr s1\<rparr>"
    and g1: "nGhosts (Temp_dr s1) = nGhosts (Temp_dr s')"
    and v1: "ps \<noteq> [] \<longrightarrow>
             (\<forall>k<Nsources s'. Temp_r s1 ! k = fst (bc (last ps) k)) \<and>
             (\<forall>d<D s'. \<forall>k<Nsources s'.
                myData (Temp_dr s1) ! (d * nGhosts (Temp_dr s') + k) = snd (bc (last ps) k) d)"
    by blast
  have f2: "s1 = s\<lparr>Temp_r := Temp_r s1, Temp_dr := Temp_dr s1\<rparr>"
    by (subst f1, subst f, simp)
  have "ps = [] \<Longrightarrow> s1 = s'" using m1 by simp
  then have v2: "(\<forall>k<Nsources s. Temp_r s1 ! k = fst (bc (last (p # ps)) k)) \<and>
             (\<forall>d<D s. \<forall>k<Nsources s.
                myData (Temp_dr s1) ! (d * nGhosts (Temp_dr s) + k) = snd (bc (last (p # ps)) k) d)"
    using v v1 same g by (cases "ps = []") simp_all
  show ?case
    by (rule exI[of _ s1]) (use m m1 w1 f2 g g1 v2 in simp)
qed

section \<open>The compact lists built by \<open>donePbyP\<close>\<close>

lemma patch_Nil [simp]: "patch off [] xs = xs"
  by (simp add: patch_def)

lemma length_patch [simp]: "off + length vs \<le> length xs \<Longrightarrow> length (patch off vs xs) = length xs"
  by (simp add: patch_def)

lemma patch_Cons:
  assumes "off < length xs"
  shows "patch (Suc off) vs (xs[off := v]) = patch off (v # vs) xs"
proof -
  have "take (Suc off) (xs[off := v]) = take off xs @ [v]"
    using assms by (simp add: take_Suc_conv_app_nth)
  then show ?thesis by (simp add: patch_def)
qed

lemma nth_patch:
  assumes "off + length vs \<le> length xs"
  shows "patch off vs xs ! i =
     (if i < off then xs ! i else if i < off + length vs then vs ! (i - off) else xs ! i)"
proof -
  have l: "length (take off xs) = off" using assms by simp
  show ?thesis
  proof (cases "i < off")
    case True
    then show ?thesis using l by (simp add: patch_def nth_append)
  next
    case False
    note nlt = this
    show ?thesis
    proof (cases "i < off + length vs")
      case True
      then have "i - off < length vs" using nlt by simp
      then show ?thesis using True nlt l by (simp add: patch_def nth_append)
    next
      case False
      then have a: "\<not> i - off < length vs" and b: "off + length vs + (i - off - length vs) = i"
        using nlt by simp_all
      have "patch off vs xs ! i = drop (off + length vs) xs ! (i - off - length vs)"
        using nlt a l by (simp add: patch_def nth_append)
      also have "\<dots> = xs ! i" using assms b by simp
      finally show ?thesis using nlt False by simp
    qed
  qed
qed

lemma displacement_at_fold:
  assumes "\<forall>x\<in>set xs. ix x < length pool"
  shows "foldE (\<lambda>idim v. thenE (rd pool (ix idim)) (\<lambda>x. Inr (v @ [x]))) xs acc =
         Inr (acc @ map (\<lambda>idim. pool ! ix idim) xs)"
  using assms by (induction xs arbitrary: acc) (simp_all add: rd_def)

lemma displacement_at_wf:
  assumes wf: "wf_table s" and j: "j < Ntargets s" and i: "i < Nsources s"
  shows "displacement_at (D s) (memoryPool s) (Displacements s ! j) i = Inr (dense_displacement s j i)"
proof -
  let ?g = "D2 (Distances s)" and ?B = "BlockSize s"
  have len: "Nsources s \<le> ?g" "?B = ?g * D s" "length (memoryPool s) = Ntargets s * ?B"
    using wf by (simp_all add: wf_table_def)
  have ref: "ref_offset (Displacements s ! j) = j * ?B" "ref_nGhosts (Displacements s ! j) = ?g"
    using wf j by (simp_all add: wf_table_def attachReference_def)
  have "j * ?B + d * ?g + i < length (memoryPool s)" if "d < D s" for d
  proof -
    have "d * ?g + i < ?B"
      using block_index_less[of d "D s" i ?g] that len i by (simp add: mult.commute)
    from block_index_less[OF j this] show ?thesis using len by (simp add: add.assoc)
  qed
  then have "\<forall>d\<in>set [0..<D s]. j * ?B + d * ?g + i < length (memoryPool s)" by simp
  from displacement_at_fold[of "[0..<D s]" "\<lambda>d. j * ?B + d * ?g + i" "memoryPool s" "[]", OF this]
  show ?thesis by (simp add: displacement_at_def ref dense_displacement_def)
qed

lemma compact_pair_step:
  assumes wf: "wf_table s" and i: "i < Nsources s" and j: "j < Ntargets s"
    and r: "i * D2 (r_m2 s) + nn < length rs"
    and d: "i * D2 (dr_m2 s) + nn < length ds"
    and x: "i * D2 (J2 s) + nn < length jx"
  shows "compact_pair s i j (nn, rs, ds, jx) =
     (if in_cutoff s i j
      then Inr (Suc nn, rs[i * D2 (r_m2 s) + nn := X (Distances s) ! (j * D2 (Distances s) + i)],
                ds[i * D2 (dr_m2 s) + nn := map uminus (dense_displacement s j i)],
                jx[i * D2 (J2 s) + nn := j])
      else Inr (nn, rs, ds, jx))"
proof -
  let ?g = "D2 (Distances s)"
  have len: "Nsources s \<le> ?g" "length (X (Distances s)) = Ntargets s * ?g"
    "length (Displacements s) = Ntargets s"
    using wf by (simp_all add: wf_table_def)
  have "j * ?g + i < length (X (Distances s))"
    using block_index_less[of j "Ntargets s" i ?g] i j len by simp
  then have rd1: "rd (X (Distances s)) (j * ?g + i) = Inr (X (Distances s) ! (j * ?g + i))"
    by (simp add: rd_def)
  have rd2: "rd (Displacements s) j = Inr (Displacements s ! j)"
    using j len by (simp add: rd_def)
  have neg: "((*) (- 1 :: real)) = uminus"
    by (rule ext) simp
  show ?thesis
    unfolding compact_pair_def
    by (simp add: rd1 rd2 displacement_at_wf[OF wf j i] wr_in[OF r] wr_in[OF d] wr_in[OF x]
        in_cutoff_def neg)
qed

lemma compact_inner:
  assumes wf: "wf_table s" and i: "i < Nsources s"
  shows "\<forall>j\<in>set js. j < Ntargets s \<Longrightarrow>
    i * D2 (r_m2 s) + nn + length js \<le> length rs \<Longrightarrow>
    i * D2 (dr_m2 s) + nn + length js \<le> length ds \<Longrightarrow>
    i * D2 (J2 s) + nn + length js \<le> length jx \<Longrightarrow>
    foldE (compact_pair s i) js (nn, rs, ds, jx) =
      Inr (nn + length (filter (in_cutoff s i) js),
           patch (i * D2 (r_m2 s) + nn)
             (map (\<lambda>j. X (Distances s) ! (j * D2 (Distances s) + i)) (filter (in_cutoff s i) js)) rs,
           patch (i * D2 (dr_m2 s) + nn)
             (map (\<lambda>j. map uminus (dense_displacement s j i)) (filter (in_cutoff s i) js)) ds,
           patch (i * D2 (J2 s) + nn) (filter (in_cutoff s i) js) jx)"
proof (induction js arbitrary: nn rs ds jx)
  case Nil
  then show ?case by simp
next
  case (Cons j js)
  have j: "j < Ntargets s" using Cons.prems(1) by simp
  have r: "i * D2 (r_m2 s) + nn < length rs" and d: "i * D2 (dr_m2 s) + nn < length ds"
    and x: "i * D2 (J2 s) + nn < length jx"
    using Cons.prems by simp_all
  note step = compact_pair_step[OF wf i j r d x]
  show ?case
  proof (cases "in_cutoff s i j")
    case True
    let ?rs = "rs[i * D2 (r_m2 s) + nn := X (Distances s) ! (j * D2 (Distances s) + i)]"
    let ?ds = "ds[i * D2 (dr_m2 s) + nn := map uminus (dense_displacement s j i)]"
    let ?jx = "jx[i * D2 (J2 s) + nn := j]"
    have IH: "foldE (compact_pair s i) js (Suc nn, ?rs, ?ds, ?jx) =
      Inr (Suc nn + length (filter (in_cutoff s i) js),
           patch (i * D2 (r_m2 s) + Suc nn)
             (map (\<lambda>j. X (Distances s) ! (j * D2 (Distances s) + i)) (filter (in_cutoff s i) js)) ?rs,
           patch (i * D2 (dr_m2 s) + Suc nn)
             (map (\<lambda>j. map uminus (dense_displacement s j i)) (filter (in_cutoff s i) js)) ?ds,
           patch (i * D2 (J2 s) + Suc nn) (filter (in_cutoff s i) js) ?jx)"
      by (rule Cons.IH) (use Cons.prems in simp_all)
    show ?thesis
      using True by (simp add: step IH patch_Cons[OF r] patch_Cons[OF d] patch_Cons[OF x])
  next
    case False
    have IH: "foldE (compact_pair s i) js (nn, rs, ds, jx) =
      Inr (nn + length (filter (in_cutoff s i) js),
           patch (i * D2 (r_m2 s) + nn)
             (map (\<lambda>j. X (Distances s) ! (j * D2 (Distances s) + i)) (filter (in_cutoff s i) js)) rs,
           patch (i * D2 (dr_m2 s) + nn)
             (map (\<lambda>j. map uminus (dense_displacement s j i)) (filter (in_cutoff s i) js)) ds,
           patch (i * D2 (J2 s) + nn) (filter (in_cutoff s i) js) jx)"
      by (rule Cons.IH) (use Cons.prems in simp_all)
    show ?thesis using False by (simp add: step IH)
  qed
qed

lemma row_fits: "i < n \<Longrightarrow> k \<le> (c::nat) \<Longrightarrow> i * c + k \<le> n * c"
proof -
  assume a: "i < n" and k: "k \<le> c"
  have "i * c + k \<le> Suc i * c" using k by simp
  also have "\<dots> \<le> n * c" using a by (intro mult_le_mono1) simp
  finally show ?thesis .
qed

lemma length_near: "length (near s i) \<le> Ntargets s"
  unfolding near_def by (rule order_trans[OF length_filter_le]) simp

lemma compact_source_wf:
  assumes wf: "wf_table s" and i: "i < Nsources s"
    and lm: "length m = Nsources s"
    and lr: "length rs = Nsources s * D2 (r_m2 s)"
    and ld: "length ds = Nsources s * D2 (dr_m2 s)"
    and lj: "length jx = Nsources s * D2 (J2 s)"
  shows "compact_source s i (m, rs, ds, jx) =
     Inr (m[i := length (near s i)],
          patch (i * D2 (r_m2 s))
            (map (\<lambda>j. X (Distances s) ! (j * D2 (Distances s) + i)) (near s i)) rs,
          patch (i * D2 (dr_m2 s))
            (map (\<lambda>j. map uminus (dense_displacement s j i)) (near s i)) ds,
          patch (i * D2 (J2 s)) (near s i) jx)"
proof -
  have pad: "Ntargets s \<le> D2 (r_m2 s)" "Ntargets s \<le> D2 (dr_m2 s)" "Ntargets s \<le> D2 (J2 s)"
    using wf by (simp_all add: wf_table_def)
  have inner: "foldE (compact_pair s i) [0..<Ntargets s] (0, rs, ds, jx) =
      Inr (0 + length (filter (in_cutoff s i) [0..<Ntargets s]),
           patch (i * D2 (r_m2 s) + 0)
             (map (\<lambda>j. X (Distances s) ! (j * D2 (Distances s) + i)) (filter (in_cutoff s i) [0..<Ntargets s])) rs,
           patch (i * D2 (dr_m2 s) + 0)
             (map (\<lambda>j. map uminus (dense_displacement s j i)) (filter (in_cutoff s i) [0..<Ntargets s])) ds,
           patch (i * D2 (J2 s) + 0) (filter (in_cutoff s i) [0..<Ntargets s]) jx)"
  proof (rule compact_inner[OF wf i])
    show "\<forall>j\<in>set [0..<Ntargets s]. j < Ntargets s" by simp
    show "i * D2 (r_m2 s) + 0 + length [0..<Ntargets s] \<le> length rs"
      using row_fits[OF i pad(1)] lr by simp
    show "i * D2 (dr_m2 s) + 0 + length [0..<Ntargets s] \<le> length ds"
      using row_fits[OF i pad(2)] ld by simp
    show "i * D2 (J2 s) + 0 + length [0..<Ntargets s] \<le> length jx"
      using row_fits[OF i pad(3)] lj by simp
  qed
  have w: "wr m i (length (near s i)) = Inr (m[i := length (near s i)])"
    using i lm by (simp add: wr_def)
  show ?thesis
    unfolding compact_source_def using inner w by (simp add: near_def)
qed

lemma compact_outer:
  assumes wf: "wf_table s"
  shows "n \<le> Nsources s \<Longrightarrow> length m = Nsources s \<Longrightarrow>
    length rs = Nsources s * D2 (r_m2 s) \<Longrightarrow> length ds = Nsources s * D2 (dr_m2 s) \<Longrightarrow>
    length jx = Nsources s * D2 (J2 s) \<Longrightarrow>
    \<exists>m' rs' ds' jx'. foldE (compact_source s) [0..<n] (m, rs, ds, jx) = Inr (m', rs', ds', jx') \<and>
       length m' = Nsources s \<and> length rs' = Nsources s * D2 (r_m2 s) \<and>
       length ds' = Nsources s * D2 (dr_m2 s) \<and> length jx' = Nsources s * D2 (J2 s) \<and>
       (\<forall>i<n. row_done s i (m', rs', ds', jx'))"
proof (induction n)
  case 0
  then show ?case by simp
next
  case (Suc n)
  have n: "n < Nsources s" using Suc.prems(1) by simp
  from Suc.IH[OF _ Suc.prems(2-5)] n obtain m' rs' ds' jx' where
    f: "foldE (compact_source s) [0..<n] (m, rs, ds, jx) = Inr (m', rs', ds', jx')"
    and lm: "length m' = Nsources s" and lr: "length rs' = Nsources s * D2 (r_m2 s)"
    and ld: "length ds' = Nsources s * D2 (dr_m2 s)" and lj: "length jx' = Nsources s * D2 (J2 s)"
    and prev: "\<forall>i<n. row_done s i (m', rs', ds', jx')"
    by auto
  have pad: "Ntargets s \<le> D2 (r_m2 s)" "Ntargets s \<le> D2 (dr_m2 s)" "Ntargets s \<le> D2 (J2 s)"
    using wf by (simp_all add: wf_table_def)
  let ?c = "length (near s n)"
  let ?m = "m'[n := ?c]"
  let ?rs = "patch (n * D2 (r_m2 s)) (map (\<lambda>j. X (Distances s) ! (j * D2 (Distances s) + n)) (near s n)) rs'"
  let ?ds = "patch (n * D2 (dr_m2 s)) (map (\<lambda>j. map uminus (dense_displacement s j n)) (near s n)) ds'"
  let ?jx = "patch (n * D2 (J2 s)) (near s n) jx'"
  have fit: "n * D2 (r_m2 s) + ?c \<le> length rs'" "n * D2 (dr_m2 s) + ?c \<le> length ds'"
    "n * D2 (J2 s) + ?c \<le> length jx'"
    using row_fits[OF n order_trans[OF length_near[of s n] pad(1)]]
      row_fits[OF n order_trans[OF length_near[of s n] pad(2)]]
      row_fits[OF n order_trans[OF length_near[of s n] pad(3)]] lr ld lj by simp_all
  have step: "foldE (compact_source s) [0..<Suc n] (m, rs, ds, jx) = Inr (?m, ?rs, ?ds, ?jx)"
    by (simp add: foldE_snoc f compact_source_wf[OF wf n lm lr ld lj])
  have lens: "length ?m = Nsources s" "length ?rs = Nsources s * D2 (r_m2 s)"
    "length ?ds = Nsources s * D2 (dr_m2 s)" "length ?jx = Nsources s * D2 (J2 s)"
    using fit lm lr ld lj by simp_all
  have new: "row_done s n (?m, ?rs, ?ds, ?jx)"
    using n lm fit by (simp add: row_done_def nth_patch)
  have old: "row_done s i (?m, ?rs, ?ds, ?jx)" if "i < n" for i
  proof -
    have below: "i * c + k < n * c" if "k < length (near s i)" "Ntargets s \<le> c" for k c
    proof -
      have "k < c" using that length_near[of s i] by simp
      then show ?thesis using block_index_less[OF \<open>i < n\<close>] by simp
    qed
    have "row_done s i (m', rs', ds', jx')" using prev that by simp
    then show ?thesis
      using that below pad fit by (simp add: row_done_def nth_patch)
  qed
  have "\<forall>i<Suc n. row_done s i (?m, ?rs, ?ds, ?jx)"
    using new old by (auto simp: less_Suc_eq)
  then show ?case using step lens by blast
qed

lemma take_drop_eqI:
  assumes "off + length vs \<le> length xs" "\<And>n. n < length vs \<Longrightarrow> xs ! (off + n) = vs ! n"
  shows "take (length vs) (drop off xs) = vs"
  using assms by (intro nth_equalityI) simp_all

lemma near_props:
  "set (near s i) = {j. j < Ntargets s \<and> X (Distances s) ! (j * D2 (Distances s) + i) < Rmax s}"
  "sorted_wrt (<) (near s i)"
  "length (near s i) = card {j. j < Ntargets s \<and> X (Distances s) ! (j * D2 (Distances s) + i) < Rmax s}"
proof -
  show a: "set (near s i) = {j. j < Ntargets s \<and> X (Distances s) ! (j * D2 (Distances s) + i) < Rmax s}"
    by (auto simp: near_def in_cutoff_def)
  show "sorted_wrt (<) (near s i)"
    unfolding near_def by (rule sorted_wrt_filter) simp
  have "distinct (near s i)" by (simp add: near_def)
  then have "card (set (near s i)) = length (near s i)" by (rule distinct_card)
  then show "length (near s i) = card {j. j < Ntargets s \<and> X (Distances s) ! (j * D2 (Distances s) + i) < Rmax s}"
    using a by simp
qed

section \<open>The example tables evaluated\<close>

lemma update_example: "update 1 example_table = Inr example_committed"
  by (simp add: update_def copy_n_def example_table_def example_committed_def rd_def wr_def upt_rec)

lemma wf_example: "wf_table example_table"
  by (simp add: wf_table_def example_table_def attachReference_def upt_rec)

lemma moves_example: "foldE (move example_bc) [3, 4] example_table = Inr example_trial"
  by (simp add: move_eq cd_r_writes_def cd_dr_writes_def example_table_def example_trial_def
      example_bc_def upt_rec)

lemma update_example_trial:
  "update 1 example_trial =
     Inr (example_trial\<lparr>Distances := \<lparr>D1 = 2, D2 = 2, X = [1 / 2, 3, 4, 3]\<rparr>,
                        memoryPool := [1 / 2, - 3, 4, 3]\<rparr>)"
  by (simp add: update_def copy_n_def example_table_def example_trial_def rd_def wr_def upt_rec)

lemma donePbyP_example: "donePbyP (1 / 2 ^ 52) example_wide = Inr example_compacted"
  by (simp add: donePbyP_def compact_source_def compact_pair_def displacement_at_def
      example_wide_def example_compacted_def example_table_def rd_def wr_def upt_rec)

section \<open>Claims about the distance table\<close>

text \<open>
  C7.  A cutoff radius below machine epsilon makes \<open>donePbyP\<close> return at once:
  the result is the table it was given, so \<open>M\<close>, \<open>J2\<close>, \<open>r_m2\<close>, \<open>dr_m2\<close> and
  every other member are exactly as they were.
\<close>

theorem donePbyP_zero_cutoff: "Rmax s < eps \<Longrightarrow> donePbyP eps s = Inr s"
  by (simp add: donePbyP_def)

theorem donePbyP_zero_cutoff_witness:
  "Rmax (example_compacted\<lparr>Rmax := 0\<rparr>) < 1 / 2 ^ 52 \<and>
   donePbyP (1 / 2 ^ 52) (example_compacted\<lparr>Rmax := 0\<rparr>) = Inr (example_compacted\<lparr>Rmax := 0\<rparr>) \<and>
   M (example_compacted\<lparr>Rmax := 0\<rparr>) = [2, 1]"
proof -
  have h: "Rmax (example_compacted\<lparr>Rmax := 0\<rparr>) < 1 / 2 ^ 52" by simp
  have m: "M (example_compacted\<lparr>Rmax := 0\<rparr>) = [2, 1]" by (simp add: example_compacted_def)
  show ?thesis using h m donePbyP_zero_cutoff [OF h] by simp
qed

text \<open>
  C10.  \<open>update\<close> is idempotent and does not consume the trial: when
  \<open>update iat\<close> succeeds on a table, a second \<open>update iat\<close> succeeds on the
  result and returns it unchanged, and the scratch buffers \<open>Temp_r\<close> and
  \<open>Temp_dr\<close> are those of the table before the first call.
\<close>

theorem update_idempotent:
  assumes "update iat s = Inr s'"
  shows "update iat s' = Inr s' \<and> Temp_r s' = Temp_r s \<and> Temp_dr s' = Temp_dr s"
proof -
  from assms obtain r pool where
    r: "(\<forall>k<Nsources s. k < length (Temp_r s))" "apply_writes (row_writes s iat) (X (Distances s)) = Inr r"
    and p: "update_reads_ok s iat" "apply_writes (pool_writes s iat) (memoryPool s) = Inr pool"
    and s': "s' = s\<lparr>Distances := (Distances s)\<lparr>X := r\<rparr>, memoryPool := pool\<rparr>"
    by (auto simp: update_eq thenE_eq_Inr split: if_splits)
  have same: "row_writes s' iat = row_writes s iat" "pool_writes s' iat = pool_writes s iat"
    "update_reads_ok s' iat = update_reads_ok s iat"
    by (simp_all add: s' row_writes_def pool_writes_def update_reads_ok_def)
  have "apply_writes (row_writes s iat) r = Inr r" "apply_writes (pool_writes s iat) pool = Inr pool"
    using r p by (auto intro: apply_writes_idem)
  then have "update iat s' = Inr s'"
    using r p by (simp add: update_eq[of iat s'] same) (simp add: s')
  then show ?thesis by (simp add: s')
qed

theorem update_idempotent_witness:
  "update 1 example_table = Inr example_committed \<and>
   update 1 example_committed = Inr example_committed \<and>
   Temp_r example_committed = Temp_r example_table \<and>
   Temp_dr example_committed = Temp_dr example_table"
  using update_idempotent [OF update_example] update_example by simp

text \<open>
  C8.  On an allocated table, any sequence of trial evaluations \<open>move\<close> succeeds
  and changes only \<open>Temp_r\<close> and \<open>Temp_dr\<close>: \<open>Distances\<close>, \<open>memoryPool\<close> (the
  storage of \<open>Displacements\<close>) and the row references are those of the start,
  and the scratch row holds the values of the last candidate.  A following
  \<open>update iat\<close> succeeds; entry for entry, row \<open>iat\<close> of \<open>Distances\<close> and of
  \<open>Displacements\<close> then holds the scratch row of the last trial, and every
  other row is unchanged.
\<close>

theorem trial_then_commit:
  assumes "wf_table s" and "iat < Ntargets s"
  shows "\<exists>s1 s2. foldE (move bc) ps s = Inr s1 \<and> update iat s1 = Inr s2 \<and>
           s1 = s\<lparr>Temp_r := Temp_r s1, Temp_dr := Temp_dr s1\<rparr> \<and>
           Distances s1 = Distances s \<and> memoryPool s1 = memoryPool s \<and>
           Displacements s1 = Displacements s \<and>
           (ps \<noteq> [] \<longrightarrow>
             (\<forall>k<Nsources s. Temp_r s1 ! k = fst (bc (last ps) k)) \<and>
             (\<forall>d<D s. \<forall>k<Nsources s.
                myData (Temp_dr s1) ! (d * nGhosts (Temp_dr s) + k) = snd (bc (last ps) k) d)) \<and>
           s2 = s1\<lparr>Distances := (Distances s)\<lparr>X := X (Distances s2)\<rparr>, memoryPool := memoryPool s2\<rparr> \<and>
           (\<forall>k<Nsources s. X (Distances s2) ! (iat * D2 (Distances s) + k) = Temp_r s1 ! k) \<and>
           (\<forall>d<D s. \<forall>k<Nsources s.
              memoryPool s2 ! (iat * BlockSize s + d * D2 (Distances s) + k) =
              myData (Temp_dr s1) ! (d * nGhosts (Temp_dr s1) + k)) \<and>
           (\<forall>j<Ntargets s. \<forall>k<D2 (Distances s). j \<noteq> iat \<longrightarrow>
              X (Distances s2) ! (j * D2 (Distances s) + k) = X (Distances s) ! (j * D2 (Distances s) + k)) \<and>
           (\<forall>j<Ntargets s. \<forall>i<BlockSize s. j \<noteq> iat \<longrightarrow>
              memoryPool s2 ! (j * BlockSize s + i) = memoryPool s ! (j * BlockSize s + i))"
proof -
  from moves_wf[OF assms(1), of bc ps] obtain s1 where
    m: "foldE (move bc) ps s = Inr s1" and w: "wf_table s1"
    and f: "s1 = s\<lparr>Temp_r := Temp_r s1, Temp_dr := Temp_dr s1\<rparr>"
    and v: "ps \<noteq> [] \<longrightarrow>
             (\<forall>k<Nsources s. Temp_r s1 ! k = fst (bc (last ps) k)) \<and>
             (\<forall>d<D s. \<forall>k<Nsources s.
                myData (Temp_dr s1) ! (d * nGhosts (Temp_dr s) + k) = snd (bc (last ps) k) d)"
    by blast
  have same: "Distances s1 = Distances s" "memoryPool s1 = memoryPool s"
    "Displacements s1 = Displacements s" "Nsources s1 = Nsources s" "Ntargets s1 = Ntargets s"
    "D s1 = D s" "BlockSize s1 = BlockSize s"
    by (subst f, simp)+
  have iat: "iat < Ntargets s1" using assms(2) same by simp
  from update_wf[OF w iat] obtain s2 where
    u: "update iat s1 = Inr s2"
    and f2: "s2 = s1\<lparr>Distances := (Distances s1)\<lparr>X := X (Distances s2)\<rparr>, memoryPool := memoryPool s2\<rparr>"
    and r: "\<forall>k<Nsources s1. X (Distances s2) ! (iat * D2 (Distances s1) + k) = Temp_r s1 ! k"
      "\<forall>d<D s1. \<forall>k<Nsources s1.
              memoryPool s2 ! (iat * BlockSize s1 + d * D2 (Distances s1) + k) =
              myData (Temp_dr s1) ! (d * nGhosts (Temp_dr s1) + k)"
      "\<forall>j<Ntargets s1. \<forall>k<D2 (Distances s1). j \<noteq> iat \<longrightarrow>
              X (Distances s2) ! (j * D2 (Distances s1) + k) = X (Distances s1) ! (j * D2 (Distances s1) + k)"
      "\<forall>j<Ntargets s1. \<forall>i<BlockSize s1. j \<noteq> iat \<longrightarrow>
              memoryPool s2 ! (j * BlockSize s1 + i) = memoryPool s1 ! (j * BlockSize s1 + i)"
    by blast
  show ?thesis
    apply (rule exI[of _ s1], rule exI[of _ s2])
    using m u f v f2 r unfolding same by blast
qed

theorem trial_then_commit_witness:
  "wf_table example_table \<and> 1 < Ntargets example_table \<and>
   (\<exists>s1 s2. foldE (move example_bc) [3, 4] example_table = Inr s1 \<and> update 1 s1 = Inr s2 \<and>
      s1 = example_trial \<and> Distances s1 = Distances example_table \<and>
      X (Distances s2) = [1 / 2, 3, 4, 3] \<and> memoryPool s2 = [1 / 2, - 3, 4, 3])"
proof -
  have h: "1 < Ntargets example_table" by (simp add: example_table_def)
  from trial_then_commit [OF wf_example h, of example_bc "[3, 4]"] obtain s1 s2 where
    m: "foldE (move example_bc) [3, 4] example_table = Inr s1" and u: "update 1 s1 = Inr s2"
    and d: "Distances s1 = Distances example_table"
    by blast
  have s1: "s1 = example_trial" using m moves_example by simp
  have s2: "X (Distances s2) = [1 / 2, 3, 4, 3] \<and> memoryPool s2 = [1 / 2, - 3, 4, 3]"
    using u update_example_trial unfolding s1 by auto
  show ?thesis using wf_example h m u s1 s2 d by blast
qed

text \<open>
  C6.  On an allocated table whose cutoff \<open>Rmax\<close> is not below epsilon,
  \<open>donePbyP\<close> succeeds and writes only \<open>M\<close>, \<open>r_m2\<close>, \<open>dr_m2\<close> and \<open>J2\<close>.
  Afterwards, for every source \<open>i\<close>, the first \<open>M[i]\<close> entries of row \<open>i\<close> of
  \<open>J2\<close> are exactly the targets \<open>j\<close> with \<open>Distances[j][i] < Rmax\<close>, in strictly
  ascending order; \<open>M[i]\<close> is their number; the entries of \<open>r_m2\<close> are the dense
  distances \<open>Distances[j][i]\<close> and those of \<open>dr_m2\<close> the negated dense
  displacements \<open>Displacements[j][i]\<close> of these targets, in the same order.
\<close>

theorem compact_lists:
  assumes "wf_table s" and "eps \<le> Rmax s"
  shows "\<exists>s'. donePbyP eps s = Inr s' \<and>
     s' = s\<lparr>M := M s', r_m2 := (r_m2 s)\<lparr>X := X (r_m2 s')\<rparr>,
            dr_m2 := (dr_m2 s)\<lparr>X := X (dr_m2 s')\<rparr>, J2 := (J2 s)\<lparr>X := X (J2 s')\<rparr>\<rparr> \<and>
     (\<forall>i<Nsources s.
        (let c = M s' ! i;
             idx = take c (drop (i * D2 (J2 s)) (X (J2 s')));
             dist = take c (drop (i * D2 (r_m2 s)) (X (r_m2 s')));
             disp = take c (drop (i * D2 (dr_m2 s)) (X (dr_m2 s')))
         in set idx = {j. j < Ntargets s \<and> X (Distances s) ! (j * D2 (Distances s) + i) < Rmax s} \<and>
            sorted_wrt (<) idx \<and>
            c = card {j. j < Ntargets s \<and> X (Distances s) ! (j * D2 (Distances s) + i) < Rmax s} \<and>
            dist = map (\<lambda>j. X (Distances s) ! (j * D2 (Distances s) + i)) idx \<and>
            disp = map (\<lambda>j. map uminus (dense_displacement s j i)) idx))"
proof -
  note wf = assms(1)
  have len: "length (M s) = Nsources s" "length (X (r_m2 s)) = Nsources s * D2 (r_m2 s)"
    "length (X (dr_m2 s)) = Nsources s * D2 (dr_m2 s)" "length (X (J2 s)) = Nsources s * D2 (J2 s)"
    and pad: "Ntargets s \<le> D2 (r_m2 s)" "Ntargets s \<le> D2 (dr_m2 s)" "Ntargets s \<le> D2 (J2 s)"
    using wf by (simp_all add: wf_table_def)
  from compact_outer[OF wf order_refl len] obtain m' rs' ds' jx' where
    f: "foldE (compact_source s) [0..<Nsources s] (M s, X (r_m2 s), X (dr_m2 s), X (J2 s)) =
          Inr (m', rs', ds', jx')"
    and lr: "length rs' = Nsources s * D2 (r_m2 s)"
    and ld: "length ds' = Nsources s * D2 (dr_m2 s)" and lj: "length jx' = Nsources s * D2 (J2 s)"
    and rows: "\<forall>i<Nsources s. row_done s i (m', rs', ds', jx')"
    by blast
  let ?s' = "s\<lparr>M := m', r_m2 := (r_m2 s)\<lparr>X := rs'\<rparr>, dr_m2 := (dr_m2 s)\<lparr>X := ds'\<rparr>,
               J2 := (J2 s)\<lparr>X := jx'\<rparr>\<rparr>"
  have run: "donePbyP eps s = Inr ?s'"
    using assms(2) f by (simp add: donePbyP_def)
  have row: "(let c = m' ! i;
             idx = take c (drop (i * D2 (J2 s)) jx');
             dist = take c (drop (i * D2 (r_m2 s)) rs');
             disp = take c (drop (i * D2 (dr_m2 s)) ds')
         in set idx = {j. j < Ntargets s \<and> X (Distances s) ! (j * D2 (Distances s) + i) < Rmax s} \<and>
            sorted_wrt (<) idx \<and>
            c = card {j. j < Ntargets s \<and> X (Distances s) ! (j * D2 (Distances s) + i) < Rmax s} \<and>
            dist = map (\<lambda>j. X (Distances s) ! (j * D2 (Distances s) + i)) idx \<and>
            disp = map (\<lambda>j. map uminus (dense_displacement s j i)) idx)"
    if i: "i < Nsources s" for i
  proof -
    let ?vs = "near s i"
    from rows i have c: "m' ! i = length ?vs"
      and e: "\<And>n. n < length ?vs \<Longrightarrow> jx' ! (i * D2 (J2 s) + n) = ?vs ! n"
        "\<And>n. n < length ?vs \<Longrightarrow>
           rs' ! (i * D2 (r_m2 s) + n) = X (Distances s) ! (?vs ! n * D2 (Distances s) + i)"
        "\<And>n. n < length ?vs \<Longrightarrow>
           ds' ! (i * D2 (dr_m2 s) + n) = map uminus (dense_displacement s (?vs ! n) i)"
      by (simp_all add: row_done_def)
    have fit: "i * D2 (r_m2 s) + length ?vs \<le> length rs'" "i * D2 (dr_m2 s) + length ?vs \<le> length ds'"
      "i * D2 (J2 s) + length ?vs \<le> length jx'"
      using row_fits[OF i order_trans[OF length_near[of s i] pad(1)]]
        row_fits[OF i order_trans[OF length_near[of s i] pad(2)]]
        row_fits[OF i order_trans[OF length_near[of s i] pad(3)]] lr ld lj by simp_all
    have t1: "take (length ?vs) (drop (i * D2 (J2 s)) jx') = ?vs"
      by (rule take_drop_eqI[OF fit(3)]) (rule e(1))
    have t2: "take (length ?vs) (drop (i * D2 (r_m2 s)) rs') =
        map (\<lambda>j. X (Distances s) ! (j * D2 (Distances s) + i)) ?vs"
      using take_drop_eqI[of "i * D2 (r_m2 s)"
          "map (\<lambda>j. X (Distances s) ! (j * D2 (Distances s) + i)) ?vs" rs'] fit(1) e(2)
      by simp
    have t3: "take (length ?vs) (drop (i * D2 (dr_m2 s)) ds') =
        map (\<lambda>j. map uminus (dense_displacement s j i)) ?vs"
      using take_drop_eqI[of "i * D2 (dr_m2 s)"
          "map (\<lambda>j. map uminus (dense_displacement s j i)) ?vs" ds'] fit(2) e(3)
      by simp
    show ?thesis
      unfolding Let_def c t1 t2 t3 using near_props[of s i] by simp
  qed
  show ?thesis
    by (rule exI[of _ ?s']) (use run row in simp)
qed

theorem compact_lists_witness:
  "wf_table example_wide \<and> 1 / 2 ^ 52 \<le> Rmax example_wide \<and>
   (\<exists>s'. donePbyP (1 / 2 ^ 52) example_wide = Inr s' \<and> s' = example_compacted \<and>
      M s' = [2, 1] \<and> take (M s' ! 0) (drop (0 * D2 (J2 example_wide)) (X (J2 s'))) = [0, 1])"
proof -
  have w: "wf_table example_wide"
    by (simp add: wf_table_def example_wide_def example_table_def attachReference_def upt_rec)
  have h: "1 / 2 ^ 52 \<le> Rmax example_wide"
    by (simp add: example_wide_def example_table_def)
  from compact_lists [OF w h] obtain s' where
    r: "donePbyP (1 / 2 ^ 52) example_wide = Inr s'" by blast
  then have s': "s' = example_compacted" using donePbyP_example by simp
  have v: "M s' = [2, 1]"
    "take (M s' ! 0) (drop (0 * D2 (J2 example_wide)) (X (J2 s'))) = [0, 1]"
    unfolding s' by (simp_all add: example_compacted_def)
  show ?thesis using w h r s' v by blast
qed

text \<open>
  With a zero count \<open>resize\<close> only records the counts: every buffer is the one
  the table had (none, after construction).  On the resulting table \<open>evaluate\<close>
  (the full table) returns the table unchanged when the target count is zero,
  and \<open>move\<close> and \<open>donePbyP\<close> return it unchanged when the source count is zero.
\<close>

lemma resize_zero_counts:
  assumes "ns = 0 \<or> nt = 0"
  shows "resize ns nt s =
           s\<lparr>Nsources := ns, N_SourceIndex := ns, Ntargets := nt, N_VisitorIndex := nt\<rparr> \<and>
         (nt = 0 \<longrightarrow> evaluate bc P (resize ns nt s) = Inr (resize ns nt s)) \<and>
         (ns = 0 \<longrightarrow> move bc rnew (resize ns nt s) = Inr (resize ns nt s) \<and>
                     donePbyP eps (resize ns nt s) = Inr (resize ns nt s))"
proof -
  have r: "resize ns nt s =
           s\<lparr>Nsources := ns, N_SourceIndex := ns, Ntargets := nt, N_VisitorIndex := nt\<rparr>"
    using assms by (auto simp: resize_def)
  have e: "evaluate bc P (resize ns nt s) = Inr (resize ns nt s)" if "nt = 0"
    unfolding r using that by (simp add: evaluate_def)
  have m: "move bc rnew (resize ns nt s) = Inr (resize ns nt s)" if "ns = 0"
    unfolding r using that by (simp add: move_def computeDistances_def)
  have d: "donePbyP eps (resize ns nt s) = Inr (resize ns nt s)" if "ns = 0"
    unfolding r using that by (simp add: donePbyP_def)
  show ?thesis using r e m d by blast
qed

text \<open>
  C9.  The operations evaluated on the failing input: the table constructed for
  one source and no target, with cutoff \<open>1\<close>.  \<open>resize\<close> records the counts and
  returns before it allocates, so \<open>M\<close> and \<open>Temp_r\<close> are empty.  The loops of
  \<open>donePbyP\<close> and \<open>move\<close> run over the one source all the same: \<open>donePbyP\<close>
  stores \<open>M[0]\<close> and \<open>move\<close> stores \<open>Temp_r[0]\<close>, each outside its buffer.  On
  the table constructed for no source and one target, which takes the same
  early return of \<open>resize\<close>, \<open>donePbyP\<close> and \<open>move\<close> return the table
  unchanged.
\<close>

theorem zero_targets_out_of_bounds:
  "resize 1 0 (unallocated 3 4 1 bs) =
     (unallocated 3 4 1 bs)\<lparr>Nsources := 1, N_SourceIndex := 1, Ntargets := 0, N_VisitorIndex := 0\<rparr> \<and>
   M (resize 1 0 (unallocated 3 4 1 bs)) = [] \<and>
   Temp_r (resize 1 0 (unallocated 3 4 1 bs)) = [] \<and>
   donePbyP (1 / 2 ^ 52) (resize 1 0 (unallocated 3 4 1 bs)) = Inl OutOfBounds \<and>
   move example_bc 7 (resize 1 0 (unallocated 3 4 1 bs)) = Inl OutOfBounds \<and>
   donePbyP (1 / 2 ^ 52) (resize 0 1 (unallocated 3 4 1 bs)) = Inr (resize 0 1 (unallocated 3 4 1 bs)) \<and>
   move example_bc 7 (resize 0 1 (unallocated 3 4 1 bs)) = Inr (resize 0 1 (unallocated 3 4 1 bs))"
proof -
  have a: "donePbyP (1 / 2 ^ 52) (resize 1 0 (unallocated 3 4 1 bs)) = Inl OutOfBounds"
    "move example_bc 7 (resize 1 0 (unallocated 3 4 1 bs)) = Inl OutOfBounds"
    by (simp_all add: donePbyP_def compact_source_def move_def computeDistances_def
        resize_def unallocated_def wr_def upt_rec)
  have c: "donePbyP (1 / 2 ^ 52) (resize 0 1 (unallocated 3 4 1 bs)) = Inr (resize 0 1 (unallocated 3 4 1 bs))"
    "move example_bc 7 (resize 0 1 (unallocated 3 4 1 bs)) = Inr (resize 0 1 (unallocated 3 4 1 bs))"
    by (simp_all add: donePbyP_def move_def computeDistances_def resize_def unallocated_def)
  have d: "resize 1 0 (unallocated 3 4 1 bs) =
     (unallocated 3 4 1 bs)\<lparr>Nsources := 1, N_SourceIndex := 1, Ntargets := 0, N_VisitorIndex := 0\<rparr>"
    "M (resize 1 0 (unallocated 3 4 1 bs)) = []"
    "Temp_r (resize 1 0 (unallocated 3 4 1 bs)) = []"
    by (simp_all add: resize_def unallocated_def)
  show ?thesis using a c d by blast
qed

section \<open>The rank-one update in exact arithmetic\<close>

text \<open>With \<open>real_arith\<close> the update is the Sherman--Morrison formula: for a ratio
  that is not zero it maps the inverse of the matrix to the inverse of the
  matrix with the row replaced.  Nothing here bounds the error of an arithmetic
  that rounds.\<close>

lemma real_arith_simps [simp]:
  "v_zero real_arith = 0" "v_one real_arith = 1" "v_add real_arith = (+)"
  "v_sub real_arith = (-)" "v_mul real_arith = (*)" "v_div real_arith = (/)"
  "v_neg real_arith = uminus"
  by (simp_all add: real_arith_def)

lemma v_dot_real: "v_dot real_arith xs ys n = dot xs ys n"
  by (induction n) (simp_all add: v_dot_def dot_def)

lemma sum_if_point:
  fixes f g :: "nat \<Rightarrow> real"
  assumes "r < n"
  shows "(\<Sum>k = 0..<n. if k = r then f k else g k) = (\<Sum>k = 0..<n. g k) + (f r - g r)"
proof -
  have "(\<Sum>k = 0..<n. if k = r then f k else g k) =
        (\<Sum>k = 0..<n. g k + (if k = r then f r - g r else 0))"
    by (rule sum.cong) auto
  also have "\<dots> = (\<Sum>k = 0..<n. g k) + (\<Sum>k = 0..<n. if k = r then f r - g r else 0)"
    by (rule sum.distrib)
  also have "(\<Sum>k = 0..<n. if k = r then f r - g r else 0) = f r - g r"
    using assms by (simp add: sum.delta')
  finally show ?thesis .
qed

lemma sum_delta_left:
  fixes f :: "nat \<Rightarrow> real"
  assumes "b < n"
  shows "(\<Sum>l = 0..<n. f l * (if l = b then 1 else 0)) = f b"
proof -
  have "(\<Sum>l = 0..<n. f l * (if l = b then 1 else 0)) = (\<Sum>l = 0..<n. if l = b then f l else 0)"
    by (rule sum.cong) auto
  then show ?thesis using assms by (simp add: sum.delta')
qed

lemma sm_right:
  fixes A B :: "nat \<Rightarrow> nat \<Rightarrow> real" and v t :: "nat \<Rightarrow> real"
  assumes r: "r < n"
    and AB: "\<And>a b. a < n \<Longrightarrow> b < n \<Longrightarrow> (\<Sum>k = 0..<n. A a k * B b k) = (if a = b then 1 else 0)"
    and R: "R = (\<Sum>k = 0..<n. v k * B r k)" "R \<noteq> 0"
    and t: "\<And>j. j < n \<Longrightarrow> t j = (if j = r then 1 - 1 / R else (1 / R) * (\<Sum>l = 0..<n. B j l * v l))"
    and a: "a < n" and b: "b < n"
  shows "(\<Sum>k = 0..<n. (if a = r then v k else A a k) * (B b k - B r k * t b)) =
         (if a = b then 1 else 0)"
proof -
  have split: "(\<Sum>k = 0..<n. x k * (B b k - B r k * t b)) =
      (\<Sum>k = 0..<n. x k * B b k) - t b * (\<Sum>k = 0..<n. x k * B r k)" for x :: "nat \<Rightarrow> real"
    by (simp add: algebra_simps sum_subtractf sum_distrib_left)
  show ?thesis
  proof (cases "a = r")
    case False
    then show ?thesis using AB[OF a b] AB[OF a r] by (simp add: split)
  next
    case True
    have w: "(\<Sum>k = 0..<n. v k * B b k) = (\<Sum>l = 0..<n. B b l * v l)"
      by (rule sum.cong) (simp_all add: mult.commute)
    have e: "(\<Sum>k = 0..<n. (if a = r then v k else A a k) * (B b k - B r k * t b)) =
        (\<Sum>l = 0..<n. B b l * v l) - t b * R"
      using True split[of v] w R(1) by simp
    show ?thesis
    proof (cases "b = r")
      case True
      have "(\<Sum>l = 0..<n. B b l * v l) = R" using True w R(1) by simp
      then show ?thesis unfolding e using True \<open>a = r\<close> R(2) t[OF b]
        by (simp add: field_simps)
    next
      case False
      then show ?thesis unfolding e using \<open>a = r\<close> R(2) t[OF b]
        by (simp add: field_simps)
    qed
  qed
qed

lemma sm_left:
  fixes A B :: "nat \<Rightarrow> nat \<Rightarrow> real" and v t :: "nat \<Rightarrow> real"
  assumes r: "r < n"
    and BA: "\<And>a b. a < n \<Longrightarrow> b < n \<Longrightarrow> (\<Sum>k = 0..<n. B k a * A k b) = (if a = b then 1 else 0)"
    and R: "R = (\<Sum>k = 0..<n. v k * B r k)" "R \<noteq> 0"
    and t: "\<And>j. j < n \<Longrightarrow> t j = (if j = r then 1 - 1 / R else (1 / R) * (\<Sum>l = 0..<n. B j l * v l))"
    and a: "a < n" and b: "b < n"
  shows "(\<Sum>k = 0..<n. (B k a - B r a * t k) * (if k = r then v b else A k b)) =
         (if a = b then 1 else 0)"
proof -
  let ?w = "\<lambda>k. \<Sum>l = 0..<n. B k l * v l"
  have wr: "?w r = R" unfolding R(1) by (rule sum.cong) (simp_all add: mult.commute)
  have s1: "(\<Sum>k = 0..<n. B k a * (if k = r then v b else A k b)) =
        (if a = b then 1 else 0) + B r a * (v b - A r b)"
  proof -
    have "(\<Sum>k = 0..<n. B k a * (if k = r then v b else A k b)) =
          (\<Sum>k = 0..<n. if k = r then B k a * v b else B k a * A k b)"
      by (rule sum.cong) auto
    also have "\<dots> = (\<Sum>k = 0..<n. B k a * A k b) + (B r a * v b - B r a * A r b)"
      by (rule sum_if_point[OF r])
    finally show ?thesis using BA[OF a b] by (simp add: algebra_simps)
  qed
  have s2: "(\<Sum>k = 0..<n. ?w k * A k b) = v b"
  proof -
    have "(\<Sum>k = 0..<n. ?w k * A k b) = (\<Sum>k = 0..<n. \<Sum>l = 0..<n. v l * (B k l * A k b))"
      by (intro sum.cong refl) (simp add: sum_distrib_left sum_distrib_right mult_ac)
    also have "\<dots> = (\<Sum>l = 0..<n. \<Sum>k = 0..<n. v l * (B k l * A k b))"
      by (rule sum.swap)
    also have "\<dots> = (\<Sum>l = 0..<n. v l * (\<Sum>k = 0..<n. B k l * A k b))"
      by (simp add: sum_distrib_left)
    also have "\<dots> = (\<Sum>l = 0..<n. v l * (if l = b then 1 else 0))"
      by (rule sum.cong) (use BA b in auto)
    also have "\<dots> = v b" by (rule sum_delta_left[OF b])
    finally show ?thesis .
  qed
  have s3: "(\<Sum>k = 0..<n. t k * (if k = r then v b else A k b)) = v b - A r b"
  proof -
    have "(\<Sum>k = 0..<n. t k * (if k = r then v b else A k b)) =
          (\<Sum>k = 0..<n. if k = r then (1 - 1 / R) * v b else (1 / R) * (?w k * A k b))"
      by (rule sum.cong) (use t in auto)
    also have "\<dots> = (\<Sum>k = 0..<n. (1 / R) * (?w k * A k b)) +
          ((1 - 1 / R) * v b - (1 / R) * (?w r * A r b))"
      by (rule sum_if_point[OF r])
    also have "(\<Sum>k = 0..<n. (1 / R) * (?w k * A k b)) = (1 / R) * v b"
      unfolding sum_distrib_left [symmetric] s2 ..
    finally have "(\<Sum>k = 0..<n. t k * (if k = r then v b else A k b)) =
        (1 / R) * v b + ((1 - 1 / R) * v b - (1 / R) * (?w r * A r b))" .
    also have "\<dots> = v b - A r b"
      unfolding wr using R(2) by (simp add: field_simps)
    finally show ?thesis .
  qed
  have "(\<Sum>k = 0..<n. (B k a - B r a * t k) * (if k = r then v b else A k b)) =
        (\<Sum>k = 0..<n. B k a * (if k = r then v b else A k b)) -
        B r a * (\<Sum>k = 0..<n. t k * (if k = r then v b else A k b))"
    by (simp add: algebra_simps sum_subtractf sum_distrib_left)
  then show ?thesis using s1 s3 by simp
qed

lemma square_length: "square n a \<Longrightarrow> length a = n"
  by (simp add: square_def)

lemma square_row: "square n a \<Longrightarrow> j < n \<Longrightarrow> length (a ! j) = n"
  by (simp add: square_def list_all_length)

lemma squareI: "length a = n \<Longrightarrow> (\<And>j. j < n \<Longrightarrow> length (a ! j) = n) \<Longrightarrow> square n a"
  by (simp add: square_def list_all_length)

lemma updateRow_eq:
  assumes sq: "square n (psiMinv d)"
    and len: "length (psiV d) = n" "length (tempRowVec d) = n" "length (rcopy d) = n"
    and r: "0 \<le> r" "nat r < n" and R: "R \<noteq> 0"
  shows "updateRow real_arith d r R =
     Inr (d\<lparr>tempRowVec := sm_temp n (psiMinv d) (psiV d) (nat r) (1 / R),
            rcopy := psiMinv d ! nat r,
            psiMinv := sm_inverse n (psiMinv d) (psiV d) (nat r) (1 / R)\<rparr>)"
proof -
  let ?b = "psiMinv d" and ?v = "psiV d" and ?c = "1 / R"
  have lb: "length ?b = n" and row: "\<And>j. j < n \<Longrightarrow> length (?b ! j) = n"
    using sq by (simp_all add: square_length square_row)
  have all: "list_all (\<lambda>row. length row = n) ?b" using sq by (simp add: square_def)
  have g: "gemvTrans real_arith ?b ?v (tempRowVec d) ?c 0 =
      Inr (map (\<lambda>j. ?c * dot (?b ! j) ?v n) [0..<n])"
    using all by (simp add: gemvTrans_def v_dot_real len lb list_all_length)
  have w: "wr_int (map (\<lambda>j. ?c * dot (?b ! j) ?v n) [0..<n]) r (1 - ?c) = Inr (sm_temp n ?b ?v (nat r) ?c)"
    using r by (simp add: wr_int_def wr_def sm_temp_def)
  have c: "copyChangedRow r ?b (rcopy d) = Inr (?b ! nat r)"
    using r row[of "nat r"] by (simp add: copyChangedRow_def rd_int_def rd_def len lb)
  have lt: "length (sm_temp n ?b ?v (nat r) ?c) = n" by (simp add: sm_temp_def)
  have "map (\<lambda>j. map (\<lambda>i. ?b ! j ! i + - 1 * (?b ! nat r) ! i * sm_temp n ?b ?v (nat r) ?c ! j)
                [0..<length (?b ! j)]) [0..<length ?b] =
        sm_inverse n ?b ?v (nat r) ?c"
    unfolding sm_inverse_def lb by (rule map_cong) (simp_all add: row)
  then have e: "ger real_arith ?b (?b ! nat r) (sm_temp n ?b ?v (nat r) ?c) (- 1) =
      Inr (sm_inverse n ?b ?v (nat r) ?c)"
    using all r row[of "nat r"] by (simp add: ger_def lb lt list_all_length)
  show ?thesis
    unfolding updateRow_def Let_def by (simp only: real_arith_simps g w c e thenE_Inr)
qed

lemma nth_sm_temp:
  "j < n \<Longrightarrow> sm_temp n b v r c ! j = (if j = r then 1 - c else c * (\<Sum>l = 0..<n. b ! j ! l * v ! l))"
  by (simp add: sm_temp_def dot_def nth_list_update)

lemma nth_sm_inverse:
  "j < n \<Longrightarrow> i < n \<Longrightarrow> sm_inverse n b v r c ! j ! i = b ! j ! i - b ! r ! i * sm_temp n b v r c ! j"
  by (simp add: sm_inverse_def)

lemma sm_inverse_pair:
  assumes ip: "inverse_pair n m b" and v: "length v = n" and r: "r < n"
    and R: "R = (\<Sum>k = 0..<n. v ! k * b ! r ! k)" "R \<noteq> 0"
  shows "inverse_pair n (m[r := v]) (sm_inverse n b v r (1 / R))"
proof -
  let ?m = "m[r := v]" and ?b = "sm_inverse n b v r (1 / R)" and ?t = "\<lambda>j. sm_temp n b v r (1 / R) ! j"
  have sq: "square n m" "square n b"
    and AB: "\<And>a c. a < n \<Longrightarrow> c < n \<Longrightarrow>
        (\<Sum>k = 0..<n. m ! a ! k * b ! c ! k) = (if a = c then 1 else 0)"
    and BA: "\<And>a c. a < n \<Longrightarrow> c < n \<Longrightarrow>
        (\<Sum>k = 0..<n. b ! k ! a * m ! k ! c) = (if a = c then 1 else 0)"
    using ip by (simp_all add: inverse_pair_def)
  have lm: "length m = n" using sq by (simp add: square_length)
  have m': "?m ! a ! k = (if a = r then v ! k else m ! a ! k)" if "a < n" for a k
    using that lm by (simp add: nth_list_update)
  have t: "?t j = (if j = r then 1 - 1 / R else (1 / R) * (\<Sum>l = 0..<n. b ! j ! l * v ! l))"
    if "j < n" for j
    using that by (rule nth_sm_temp)
  have s1: "square n ?m"
  proof (rule squareI)
    show "length ?m = n" using lm by simp
    fix j assume "j < n"
    then show "length (?m ! j) = n"
      using lm v square_row[OF sq(1), of j] by (cases "j = r") simp_all
  qed
  have s2: "square n ?b"
    by (rule squareI) (simp_all add: sm_inverse_def)
  have right: "(\<Sum>k = 0..<n. ?m ! a ! k * ?b ! c ! k) = (if a = c then 1 else 0)"
    if a: "a < n" and c: "c < n" for a c
  proof -
    have "(\<Sum>k = 0..<n. ?m ! a ! k * ?b ! c ! k) =
          (\<Sum>k = 0..<n. (if a = r then v ! k else m ! a ! k) * (b ! c ! k - b ! r ! k * ?t c))"
      by (rule sum.cong) (simp_all add: m'[OF a] nth_sm_inverse[OF c])
    also have "\<dots> = (if a = c then 1 else 0)"
      by (rule sm_right[where A = "\<lambda>a k. m ! a ! k" and B = "\<lambda>j i. b ! j ! i" and v = "\<lambda>k. v ! k",
            OF r AB R t a c])
    finally show ?thesis .
  qed
  have left: "(\<Sum>k = 0..<n. ?b ! k ! a * ?m ! k ! c) = (if a = c then 1 else 0)"
    if a: "a < n" and c: "c < n" for a c
  proof -
    have "(\<Sum>k = 0..<n. ?b ! k ! a * ?m ! k ! c) =
          (\<Sum>k = 0..<n. (b ! k ! a - b ! r ! a * ?t k) * (if k = r then v ! c else m ! k ! c))"
      by (rule sum.cong) (simp_all add: m' nth_sm_inverse[OF _ a])
    also have "\<dots> = (if a = c then 1 else 0)"
      by (rule sm_left[where A = "\<lambda>a k. m ! a ! k" and B = "\<lambda>j i. b ! j ! i" and v = "\<lambda>k. v ! k",
            OF r BA R t a c])
    finally show ?thesis .
  qed
  show ?thesis
    unfolding inverse_pair_def using s1 s2 right left by simp
qed

lemma inverse_pair_unique:
  assumes p1: "inverse_pair n m b1" and p2: "inverse_pair n m b2"
  shows "b1 = b2"
proof -
  have left1: "\<And>a c. a < n \<Longrightarrow> c < n \<Longrightarrow>
        (\<Sum>k = 0..<n. b1 ! k ! a * m ! k ! c) = (if a = c then 1 else 0)"
    and right2: "\<And>a c. a < n \<Longrightarrow> c < n \<Longrightarrow>
        (\<Sum>k = 0..<n. m ! a ! k * b2 ! c ! k) = (if a = c then 1 else 0)"
    and sq: "square n b1" "square n b2"
    using p1 p2 by (simp_all add: inverse_pair_def)
  have e: "b1 ! j ! i = b2 ! j ! i" if j: "j < n" and i: "i < n" for j i
  proof -
    let ?S = "\<Sum>k = 0..<n. \<Sum>l = 0..<n. b1 ! k ! i * (m ! k ! l * b2 ! j ! l)"
    have "?S = (\<Sum>k = 0..<n. b1 ! k ! i * (\<Sum>l = 0..<n. m ! k ! l * b2 ! j ! l))"
      by (simp add: sum_distrib_left)
    also have "\<dots> = (\<Sum>k = 0..<n. b1 ! k ! i * (if k = j then 1 else 0))"
      by (rule sum.cong) (use right2 j in auto)
    also have "\<dots> = b1 ! j ! i" by (rule sum_delta_left[OF j])
    finally have a: "?S = b1 ! j ! i" .
    have "?S = (\<Sum>l = 0..<n. \<Sum>k = 0..<n. b1 ! k ! i * (m ! k ! l * b2 ! j ! l))"
      by (rule sum.swap)
    also have "\<dots> = (\<Sum>l = 0..<n. b2 ! j ! l * (\<Sum>k = 0..<n. b1 ! k ! i * m ! k ! l))"
      by (intro sum.cong refl) (simp add: sum_distrib_left mult_ac)
    also have "\<dots> = (\<Sum>l = 0..<n. b2 ! j ! l * (if l = i then 1 else 0))"
      by (rule sum.cong) (use left1 i in auto)
    also have "\<dots> = b2 ! j ! i" by (rule sum_delta_left[OF i])
    finally show ?thesis using a by simp
  qed
  show ?thesis
  proof (rule nth_equalityI)
    show "length b1 = length b2" using sq by (simp add: square_length)
    fix j assume "j < length b1"
    then have j: "j < n" using sq by (simp add: square_length)
    show "b1 ! j = b2 ! j"
      by (rule nth_equalityI) (use j sq e in \<open>simp_all add: square_row\<close>)
  qed
qed

text \<open>
  Let \<open>psiMinv\<close> be the (transposed) inverse of \<open>psiMsave\<close>, the scratch views
  have length \<open>n\<close> and the row index be in range.  If \<open>ratio\<close> returns a ratio
  that is not zero, \<open>acceptMove\<close> in exact arithmetic leaves the trial row in
  row \<open>iel - FirstIndex\<close> of \<open>psiMsave\<close>, the other rows unchanged, and
  \<open>psiMinv\<close> the inverse of \<open>psiMsave\<close>, which is the only one.
\<close>

lemma exact_row_update:
  assumes "inverse_pair n (psiMsave (ddk s)) (psiMinv (ddk s))"
    and "length (psiV (ddk s)) = n" and "length (tempRowVec (ddk s)) = n"
    and "length (rcopy (ddk s)) = n"
    and "0 \<le> iel - FirstIndex s" and "nat (iel - FirstIndex s) < n"
    and "ratio s iel = Inr (R, s1)" and "R \<noteq> 0"
  shows "\<exists>s2. acceptMove real_arith s1 iel = Inr s2 \<and>
      psiMsave (ddk s2) = (psiMsave (ddk s))[nat (iel - FirstIndex s) := psiV (ddk s1)] \<and>
      psiMsave (ddk s2) ! nat (iel - FirstIndex s) = psiV (ddk s1) \<and>
      inverse_pair n (psiMsave (ddk s2)) (psiMinv (ddk s2)) \<and>
      (\<forall>pinv. inverse_pair n (psiMsave (ddk s2)) pinv \<longrightarrow> pinv = psiMinv (ddk s2))"
proof -
  let ?r = "nat (iel - FirstIndex s)" and ?m = "psiMsave (ddk s)" and ?b = "psiMinv (ddk s)"
  let ?v = "map (\<lambda>j. myRandom s j - 1 / 2) [0..<n]"
  note ip = assms(1)
  have sq: "square n ?m" "square n ?b" using ip by (simp_all add: inverse_pair_def)
  have lb: "length ?b = n" "length ?m = n" and rowb: "length (?b ! ?r) = n"
    and rowm: "length (?m ! ?r) = n"
    using sq assms(6) by (simp_all add: square_length square_row)
  have ur: "updateRatio ?v ?b (iel - FirstIndex s) = Inr (\<Sum>k = 0..<n. ?v ! k * ?b ! ?r ! k)"
    using assms(5,6) lb rowb by (simp add: updateRatio_def rd_int_def rd_def dot_def)
  have "ratio s iel = Inr (\<Sum>k = 0..<n. ?v ! k * ?b ! ?r ! k,
          s\<lparr>ddk := (ddk s)\<lparr>psiV := ?v\<rparr>, myRandom := (\<lambda>j. myRandom s (j + n)),
            curRatio := (\<Sum>k = 0..<n. ?v ! k * ?b ! ?r ! k)\<rparr>)"
    unfolding ratio_def Let_def assms(2) using ur by simp
  with assms(7) have R: "R = (\<Sum>k = 0..<n. ?v ! k * ?b ! ?r ! k)"
    and s1: "s1 = s\<lparr>ddk := (ddk s)\<lparr>psiV := ?v\<rparr>, myRandom := (\<lambda>j. myRandom s (j + n)),
            curRatio := R\<rparr>"
    by auto
  have d1: "psiMinv (ddk s1) = ?b" "psiV (ddk s1) = ?v" "tempRowVec (ddk s1) = tempRowVec (ddk s)"
    "rcopy (ddk s1) = rcopy (ddk s)" "psiMsave (ddk s1) = ?m" "FirstIndex s1 = FirstIndex s"
    "curRatio s1 = R"
    by (simp_all add: s1)
  have lv: "length ?v = n" by simp
  let ?d = "(ddk s1)\<lparr>tempRowVec := sm_temp n ?b ?v ?r (1 / R), rcopy := ?b ! ?r,
                     psiMinv := sm_inverse n ?b ?v ?r (1 / R)\<rparr>"
  have u: "updateRow real_arith (ddk s1) (iel - FirstIndex s) R = Inr ?d"
    using updateRow_eq[of n "ddk s1" "iel - FirstIndex s" R] sq(2) assms(3,4,5,6,8) lv
    unfolding d1 by simp
  have cb: "copyBack (psiMsave ?d) (psiV ?d) (iel - FirstIndex s) = Inr (?m[?r := ?v])"
    using assms(5,6) lb rowm by (simp add: copyBack_def rd_int_def rd_def d1)
  let ?s2 = "s1\<lparr>ddk := ?d\<lparr>psiMsave := ?m[?r := ?v]\<rparr>\<rparr>"
  have acc: "acceptMove real_arith s1 iel = Inr ?s2"
    unfolding acceptMove_def d1 u thenE_Inr cb ..
  have m2: "psiMsave (ddk ?s2) = ?m[?r := ?v]" and b2: "psiMinv (ddk ?s2) = sm_inverse n ?b ?v ?r (1 / R)"
    by simp_all
  have ip2: "inverse_pair n (psiMsave (ddk ?s2)) (psiMinv (ddk ?s2))"
    unfolding m2 b2 by (rule sm_inverse_pair[OF ip lv assms(6) R assms(8)])
  have uniq: "\<forall>pinv. inverse_pair n (psiMsave (ddk ?s2)) pinv \<longrightarrow> pinv = psiMinv (ddk ?s2)"
    using inverse_pair_unique[OF _ ip2] by blast
  have row: "psiMsave (ddk ?s2) ! ?r = psiV (ddk s1)"
    unfolding m2 d1 using assms(6) lb by simp
  show ?thesis
    apply (rule exI[of _ ?s2])
    using acc ip2 uniq row unfolding m2 d1 by blast
qed

section \<open>The update in any arithmetic\<close>

text \<open>On buffers of the determinant's extents every access of \<open>updateRow\<close> is in
  range: it returns, and it writes \<open>tempRowVec\<close>, \<open>rcopy\<close> and \<open>psiMinv\<close>
  only.\<close>

lemma updateRow_total:
  assumes sq: "square n (psiMinv d)"
    and len: "length (psiV d) = n" "length (tempRowVec d) = n" "length (rcopy d) = n"
    and r: "0 \<le> r" "nat r < n"
  shows "\<exists>d'. updateRow ar d r R = Inr d' \<and> LogValue_view d' = LogValue_view d \<and>
               psiV d' = psiV d \<and> psiMsave d' = psiMsave d"
proof -
  let ?b = "psiMinv d"
  have lb: "length ?b = n" and row: "\<And>j. j < n \<Longrightarrow> length (?b ! j) = n"
    using sq by (simp_all add: square_length square_row)
  have all: "list_all (\<lambda>row. length row = n) ?b" using sq by (simp add: square_def)
  obtain t where g: "gemvTrans ar ?b (psiV d) (tempRowVec d) (v_div ar (v_one ar) R) (v_zero ar) = Inr t"
    and lt: "length t = n"
    using all by (simp add: gemvTrans_def len lb list_all_length)
  have w: "wr_int t r (v_sub ar (v_one ar) (v_div ar (v_one ar) R)) =
      Inr (t[nat r := v_sub ar (v_one ar) (v_div ar (v_one ar) R)])"
    using r lt by (simp add: wr_int_def wr_def)
  have c: "copyChangedRow r ?b (rcopy d) = Inr (?b ! nat r)"
    using r row[of "nat r"] by (simp add: copyChangedRow_def rd_int_def rd_def len lb)
  obtain p where e: "ger ar ?b (?b ! nat r) (t[nat r := v_sub ar (v_one ar) (v_div ar (v_one ar) R)])
      (v_neg ar (v_one ar)) = Inr p"
    using all r row[of "nat r"] by (simp add: ger_def lb lt list_all_length)
  have "updateRow ar d r R =
      Inr (d\<lparr>tempRowVec := t[nat r := v_sub ar (v_one ar) (v_div ar (v_one ar) R)],
             rcopy := ?b ! nat r, psiMinv := p\<rparr>)"
    unfolding updateRow_def Let_def by (simp only: g w c e thenE_Inr)
  then show ?thesis by simp
qed

section \<open>Reductions that cannot fail\<close>

lemma foldE_total:
  "(\<And>x a. x \<in> set xs \<Longrightarrow> \<exists>b. f x a = Inr b) \<Longrightarrow> \<exists>b. foldE f xs a = Inr b"
proof (induction xs arbitrary: a)
  case Nil
  then show ?case by simp
next
  case (Cons x xs)
  from Cons.prems[of x a] obtain b where b: "f x a = Inr b" by auto
  from Cons.IH[of b] Cons.prems obtain c where "foldE f xs b = Inr c" by auto
  then show ?case using b by simp
qed

lemma parallel_reduce_total:
  assumes "\<And>i a. i \<in> set (concat chunks) \<Longrightarrow> \<exists>b. f i a = Inr b"
  shows "\<exists>b. parallel_reduce f ident join chunks = Inr b"
  unfolding parallel_reduce_def
proof (rule foldE_total)
  fix chunk acc assume c: "chunk \<in> set chunks"
  have "\<exists>b. foldE f chunk ident = Inr b"
    by (rule foldE_total) (use assms c in auto)
  then show "\<exists>b. thenE (foldE f chunk ident) (\<lambda>part. Inr (join acc part)) = Inr b"
    by auto
qed

lemma InvertWithLog_locLogDet:
  "InvertWithLog lah chunks d = Inr (v, ph, d') \<Longrightarrow> v = 0"
  by (auto simp: InvertWithLog_def Let_def thenE_eq_Inr split: prod.splits)

section \<open>The example determinants evaluated\<close>

lemma upt2: "[0..<2] = [0, Suc 0]" by (simp add: upt_rec)

lemma sum2: "(\<Sum>k = 0..<2. f k) = f 0 + f (Suc 0)"
  by (simp add: numeral_2_eq_2)

lemma ratio_example: "ratio example_det 3 = Inr (- 3 / 4, example_det_trial)"
  by (simp add: ratio_def updateRatio_def rd_int_def rd_def dot_def example_det_def
      example_det_trial_def Let_def upt2 sum2)

lemma ratio_dyadic: "ratio example_dyadic 3 = Inr (- 1 / 2, example_dyadic_trial)"
  by (simp add: ratio_def updateRatio_def rd_int_def rd_def dot_def example_det_def
      example_dyadic_def example_dyadic_trial_def Let_def upt2 sum2)

lemma acceptMove_dyadic: "acceptMove real_arith example_dyadic_trial 3 = Inr example_dyadic_accepted"
  by (simp add: acceptMove_def updateRow_def gemvTrans_def copyChangedRow_def ger_def copyBack_def
      wr_int_def wr_def rd_int_def rd_def v_dot_def example_det_def example_dyadic_def
      example_dyadic_trial_def example_dyadic_accepted_def Let_def upt2)

lemma acceptMove_zero_ratio: "acceptMove ext_arith example_zero_trial 1 = Inr example_zero_accepted"
  by (simp add: acceptMove_def updateRow_def gemvTrans_def copyChangedRow_def ger_def copyBack_def
      wr_int_def wr_def rd_int_def rd_def v_dot_def ext_arith_def plus_opt_def times_opt_def
      divide_opt_def example_zero_trial_def example_zero_accepted_def Let_def upt2)

lemma Ball2: "(\<forall>a\<in>{0..<2::nat}. P a) \<longleftrightarrow> P 0 \<and> P (Suc 0)"
  by (auto simp: less_2_cases_iff)

lemma InvertWithLog_singular:
  "InvertWithLog diag_lah [[0]] (ddk_of [[0]]) = Inr (0, pi, (ddk_of [[0]])\<lparr>psiM := [[0]]\<rparr>)"
  by (simp add: InvertWithLog_def diag_lah_def ddk_of_def parallel_reduce_def sign_functor_def
      log_functor_def rd2_def rd_def Let_def upt_rec)

section \<open>Claims about the determinant\<close>

text \<open>
  C2.  When the row index \<open>iel - FirstIndex\<close> is inside \<open>psiMinv\<close>, \<open>ratio\<close>
  returns the inner product of the new row and row \<open>iel - FirstIndex\<close> of
  \<open>psiMinv\<close>, stores it in \<open>curRatio\<close>, stores the new row in \<open>psiV\<close>, and
  leaves \<open>psiMsave\<close> and \<open>psiMinv\<close> as they were.  The new row is the one the
  generator produces: \<open>newRow[j] = myRandom() - 1/2\<close>.
\<close>

theorem ratio_inner_product:
  assumes "0 \<le> iel - FirstIndex s"
    and "nat (iel - FirstIndex s) < length (psiMinv (ddk s))"
    and "length (psiV (ddk s)) \<le> length (psiMinv (ddk s) ! nat (iel - FirstIndex s))"
    and "length newRow = length (psiV (ddk s))"
    and "\<forall>j<length newRow. myRandom s j = newRow ! j + 1 / 2"
  shows "\<exists>s'. ratio s iel =
            Inr (\<Sum>k = 0..<length newRow. newRow ! k * psiMinv (ddk s) ! nat (iel - FirstIndex s) ! k, s') \<and>
          curRatio s' =
            (\<Sum>k = 0..<length newRow. newRow ! k * psiMinv (ddk s) ! nat (iel - FirstIndex s) ! k) \<and>
          psiV (ddk s') = newRow \<and>
          psiMsave (ddk s') = psiMsave (ddk s) \<and> psiMinv (ddk s') = psiMinv (ddk s)"
proof -
  have v: "map (\<lambda>j. myRandom s j - 1 / 2) [0..<length (psiV (ddk s))] = newRow"
    using assms(4,5) by (intro nth_equalityI) simp_all
  show ?thesis
    using assms(1-4)
    by (simp add: ratio_def Let_def v updateRatio_def rd_int_def rd_def dot_def)
qed

theorem ratio_inner_product_witness:
  "0 \<le> 3 - FirstIndex example_det \<and>
   nat (3 - FirstIndex example_det) < length (psiMinv (ddk example_det)) \<and>
   length (psiV (ddk example_det)) \<le> length (psiMinv (ddk example_det) ! nat (3 - FirstIndex example_det)) \<and>
   (\<exists>s'. ratio example_det 3 = Inr (- 3 / 4, s') \<and> curRatio s' = - 3 / 4 \<and>
      psiV (ddk s') = [1 / 4, - 1 / 4] \<and>
      psiMsave (ddk s') = [[1, 2], [0, 1]] \<and> psiMinv (ddk s') = [[1, 0], [- 2, 1]])"
proof -
  have h: "0 \<le> 3 - FirstIndex example_det"
    "nat (3 - FirstIndex example_det) < length (psiMinv (ddk example_det))"
    "length (psiV (ddk example_det)) \<le> length (psiMinv (ddk example_det) ! nat (3 - FirstIndex example_det))"
    "length [1 / 4, - 1 / 4 :: real] = length (psiV (ddk example_det))"
    by (simp_all add: example_det_def)
  have r: "\<forall>j<length [1 / 4, - 1 / 4 :: real]. myRandom example_det j = [1 / 4, - 1 / 4] ! j + 1 / 2"
    by (simp add: example_det_def less_Suc_eq)
  from ratio_inner_product [OF h r] obtain s' where
    "ratio example_det 3 =
       Inr (\<Sum>k = 0..<length [1 / 4, - 1 / 4 :: real].
              [1 / 4, - 1 / 4] ! k * psiMinv (ddk example_det) ! nat (3 - FirstIndex example_det) ! k, s')"
    "curRatio s' = (\<Sum>k = 0..<length [1 / 4, - 1 / 4 :: real].
              [1 / 4, - 1 / 4] ! k * psiMinv (ddk example_det) ! nat (3 - FirstIndex example_det) ! k)"
    "psiV (ddk s') = [1 / 4, - 1 / 4]"
    "psiMsave (ddk s') = psiMsave (ddk example_det)" "psiMinv (ddk s') = psiMinv (ddk example_det)"
    by blast
  then have "ratio example_det 3 = Inr (- 3 / 4, s') \<and> curRatio s' = - 3 / 4 \<and>
      psiV (ddk s') = [1 / 4, - 1 / 4] \<and>
      psiMsave (ddk s') = [[1, 2], [0, 1]] \<and> psiMinv (ddk s') = [[1, 0], [- 2, 1]]"
    by (simp add: example_det_def sum2)
  then show ?thesis using h by blast
qed

text \<open>
  C5 (as amended).  \<open>acceptMove\<close> does not write the log-determinant.  When
  \<open>psiMinv\<close> and \<open>psiMsave\<close> are \<open>n \<times> n\<close>, the three vectors have \<open>n\<close> entries
  and the row is in range, \<open>acceptMove\<close> returns, whatever the pending ratio
  and whatever the arithmetic makes of \<open>1 / ratio\<close> and of the update, and
  \<open>LogValue\<close> (and the view of the same name) is what it was before.
\<close>

theorem acceptMove_keeps_LogValue:
  assumes "square n (psiMinv (ddk s))" and "square n (psiMsave (ddk s))"
    and "length (psiV (ddk s)) = n" and "length (tempRowVec (ddk s)) = n"
    and "length (rcopy (ddk s)) = n"
    and "0 \<le> iel - FirstIndex s" and "nat (iel - FirstIndex s) < n"
  shows "\<exists>s'. acceptMove ar s iel = Inr s' \<and> LogValue s' = LogValue s \<and>
               LogValue_view (ddk s') = LogValue_view (ddk s)"
proof -
  from updateRow_total [OF assms(1,3,4,5,6,7), of ar "curRatio s"] obtain d where
    d: "updateRow ar (ddk s) (iel - FirstIndex s) (curRatio s) = Inr d"
    and f: "LogValue_view d = LogValue_view (ddk s)" "psiV d = psiV (ddk s)"
      "psiMsave d = psiMsave (ddk s)"
    by blast
  have lm: "length (psiMsave (ddk s)) = n" "length (psiMsave (ddk s) ! nat (iel - FirstIndex s)) = n"
    using assms(2,7) by (simp_all add: square_length square_row)
  have cb: "copyBack (psiMsave d) (psiV d) (iel - FirstIndex s) =
      Inr ((psiMsave (ddk s))[nat (iel - FirstIndex s) := psiV (ddk s)])"
    using assms(3,6,7) lm by (simp add: copyBack_def rd_int_def rd_def f)
  have "acceptMove ar s iel =
      Inr (s\<lparr>ddk := d\<lparr>psiMsave := (psiMsave (ddk s))[nat (iel - FirstIndex s) := psiV (ddk s)]\<rparr>\<rparr>)"
    unfolding acceptMove_def d thenE_Inr cb ..
  then show ?thesis using f(1) by simp
qed

theorem acceptMove_keeps_LogValue_witness:
  "square 2 (psiMinv (ddk example_zero_trial)) \<and> square 2 (psiMsave (ddk example_zero_trial)) \<and>
   length (psiV (ddk example_zero_trial)) = 2 \<and> length (tempRowVec (ddk example_zero_trial)) = 2 \<and>
   length (rcopy (ddk example_zero_trial)) = 2 \<and>
   0 \<le> 1 - FirstIndex example_zero_trial \<and> nat (1 - FirstIndex example_zero_trial) < 2 \<and>
   curRatio example_zero_trial = Some 0 \<and>
   (\<exists>s'. acceptMove ext_arith example_zero_trial 1 = Inr s' \<and> s' = example_zero_accepted \<and>
      psiMinv (ddk s') = [[None, None], [None, None]] \<and>
      LogValue s' = LogValue example_zero_trial \<and>
      LogValue_view (ddk s') = LogValue_view (ddk example_zero_trial))"
proof -
  have h: "square 2 (psiMinv (ddk example_zero_trial))" "square 2 (psiMsave (ddk example_zero_trial))"
    "length (psiV (ddk example_zero_trial)) = 2" "length (tempRowVec (ddk example_zero_trial)) = 2"
    "length (rcopy (ddk example_zero_trial)) = 2"
    "0 \<le> 1 - FirstIndex example_zero_trial" "nat (1 - FirstIndex example_zero_trial) < 2"
    by (simp_all add: example_zero_trial_def square_def)
  have z: "curRatio example_zero_trial = Some 0" by (simp add: example_zero_trial_def)
  from acceptMove_keeps_LogValue [OF h, of ext_arith] obtain s' where
    a: "acceptMove ext_arith example_zero_trial 1 = Inr s'"
    and l: "LogValue s' = LogValue example_zero_trial"
      "LogValue_view (ddk s') = LogValue_view (ddk example_zero_trial)"
    by blast
  have s': "s' = example_zero_accepted" using a acceptMove_zero_ratio by simp
  have v: "psiMinv (ddk s') = [[None, None], [None, None]]"
    unfolding s' by (simp add: example_zero_accepted_def)
  show ?thesis using h z a l s' v by blast
qed

text \<open>
  C5 as stated fails: the trial of the dyadic example has ratio \<open>-1/2\<close>, not
  zero, and the commit changes \<open>LogValue\<close> by \<open>0\<close>, not by \<open>ln (1/2)\<close>.
\<close>

theorem LogValue_change_counterexample:
  "ratio example_dyadic 3 = Inr (- 1 / 2, example_dyadic_trial) \<and>
   acceptMove real_arith example_dyadic_trial 3 = Inr example_dyadic_accepted \<and>
   LogValue example_dyadic_accepted - LogValue example_dyadic_trial \<noteq> ln \<bar>- 1 / 2 :: real\<bar>"
proof -
  have "ln (1 / 2 :: real) \<noteq> 0" by simp
  then have "LogValue example_dyadic_accepted - LogValue example_dyadic_trial \<noteq> ln \<bar>- 1 / 2 :: real\<bar>"
    by (simp add: example_dyadic_accepted_def example_dyadic_trial_def example_dyadic_def
        example_det_def)
  then show ?thesis using ratio_dyadic acceptMove_dyadic by simp
qed

text \<open>
  C3.  \<open>InvertWithLog\<close> evaluated on the failing inputs.  For the \<open>1 \<times> 1\<close> matrix
  \<open>(1/4)\<close> the sum of the logarithms of the pivots is \<open>ln (1/4)\<close>, and the
  function returns \<open>0\<close>: the sum goes to \<open>logdet\<close>, the value returned is
  \<open>locLogDet\<close>.  For the diagonal matrix \<open>(-1/4, 1/4)\<close>, whose determinant is
  negative, a reduction that runs both indices in one thread ends with the sign
  of the last index alone and the phase is \<open>0\<close>; with one index per thread it is
  \<open>\<pi>\<close>.
\<close>

theorem InvertWithLog_returns_zero:
  "InvertWithLog diag_lah [[0]] (ddk_of [[1 / 4]]) = Inr (0, 0, (ddk_of [[1 / 4]])\<lparr>psiM := [[4]]\<rparr>) \<and>
   (\<Sum>i = 0..<1. ln \<bar>fst (getrf diag_lah [[1 / 4]]) ! i ! i\<bar>) \<noteq> 0 \<and>
   InvertWithLog diag_lah [[0, 1]] (ddk_of [[- 1 / 4, 0], [0, 1 / 4]]) =
     Inr (0, 0, (ddk_of [[- 1 / 4, 0], [0, 1 / 4]])\<lparr>psiM := [[- 4, 0], [0, 4]]\<rparr>) \<and>
   InvertWithLog diag_lah [[0], [1]] (ddk_of [[- 1 / 4, 0], [0, 1 / 4]]) =
     Inr (0, pi, (ddk_of [[- 1 / 4, 0], [0, 1 / 4]])\<lparr>psiM := [[- 4, 0], [0, 4]]\<rparr>)"
proof -
  have "ln (1 / 4 :: real) \<noteq> 0" by simp
  then show ?thesis
    by (simp add: InvertWithLog_def diag_lah_def ddk_of_def parallel_reduce_def sign_functor_def
      log_functor_def rd2_def rd_def Let_def upt_rec)
qed

text \<open>
  C4 (as amended).  \<open>InvertWithLog\<close> has no singularity check and no error
  result of its own: whenever the diagonal entries it reads exist, it returns
  a value, a phase that is \<open>0\<close> or \<open>\<pi>\<close>, and the data with \<open>psiM\<close> replaced by
  what \<open>getri\<close> computes, zero pivots or not.
\<close>

theorem InvertWithLog_no_error:
  assumes "getrf lah (psiM d) = (lu, piv)"
    and "list_all (\<lambda>i. i < length piv \<and> i < length lu \<and> i < length (lu ! i)) (concat chunks)"
  shows "\<exists>v ph. InvertWithLog lah chunks d = Inr (v, ph, d\<lparr>psiM := getri lah lu piv\<rparr>) \<and>
               (ph = 0 \<or> ph = pi)"
proof -
  have rng: "i < length piv \<and> i < length lu \<and> i < length (lu ! i)" if "i \<in> set (concat chunks)" for i
    using assms(2) that unfolding list_all_iff by blast
  have "\<exists>b. parallel_reduce (sign_functor lu piv) 1 (*) chunks = Inr b"
    by (rule parallel_reduce_total) (use rng in \<open>auto simp: sign_functor_def rd2_def rd_def Let_def\<close>)
  then obtain sg where sg: "parallel_reduce (sign_functor lu piv) 1 (*) chunks = Inr sg" ..
  have "\<exists>b. parallel_reduce (log_functor lu) (Some 0) plus_opt chunks = Inr b"
    by (rule parallel_reduce_total) (use rng in \<open>auto simp: log_functor_def rd2_def rd_def\<close>)
  then obtain lg where lg: "parallel_reduce (log_functor lu) (Some 0) plus_opt chunks = Inr lg" ..
  show ?thesis
    using assms(1) sg lg by (simp add: InvertWithLog_def Let_def)
qed

theorem InvertWithLog_no_error_witness:
  "getrf diag_lah (psiM (ddk_of [[0]])) = ([[0]], [1]) \<and>
   list_all (\<lambda>i. i < length [1 :: int] \<and> i < length [[0 :: real]] \<and> i < length ([[0 :: real]] ! i))
     (concat [[0]]) \<and>
   InvertWithLog diag_lah [[0]] (ddk_of [[0]]) =
     Inr (0, pi, (ddk_of [[0]])\<lparr>psiM := getri diag_lah [[0]] [1]\<rparr>)"
proof -
  have h1: "getrf diag_lah (psiM (ddk_of [[0]])) = ([[0]], [1])"
    by (simp add: diag_lah_def ddk_of_def upt_rec)
  have h2: "list_all (\<lambda>i. i < length [1 :: int] \<and> i < length [[0 :: real]] \<and> i < length ([[0 :: real]] ! i))
     (concat [[0]])"
    by simp
  from InvertWithLog_no_error [OF h1 h2] obtain v ph where
    "InvertWithLog diag_lah [[0]] (ddk_of [[0]]) =
       Inr (v, ph, (ddk_of [[0]])\<lparr>psiM := getri diag_lah [[0]] [1]\<rparr>)" by blast
  then have "InvertWithLog diag_lah [[0]] (ddk_of [[0]]) =
       Inr (0, pi, (ddk_of [[0]])\<lparr>psiM := getri diag_lah [[0]] [1]\<rparr>)"
    using InvertWithLog_singular by simp
  then show ?thesis using h1 h2 by blast
qed

text \<open>
  C4 as stated fails: for the singular \<open>1 \<times> 1\<close> matrix \<open>(0)\<close>, whose only pivot is
  zero, the result is a value and a phase, not an error.
\<close>

theorem singular_matrix_counterexample:
  "getrf diag_lah (psiM (ddk_of [[0]])) = ([[0]], [1]) \<and>
   InvertWithLog diag_lah [[0]] (ddk_of [[0]]) = Inr (0, pi, (ddk_of [[0]])\<lparr>psiM := [[0]]\<rparr>)"
  using InvertWithLog_singular by (simp add: diag_lah_def ddk_of_def upt_rec)

end
